theory Spec2Isabelle
  imports Main "HOL-Library.Sublist"
begin

section \<open>Python string primitives\<close>

text \<open>
  The three variants of the checkpoint script (\<^verbatim>\<open>src/flow.py\<close>, \<^verbatim>\<open>src/old_flow/flow.py\<close>,
  \<^verbatim>\<open>src/new_flow/flow.py\<close>) work on Python \<^verbatim>\<open>str\<close> values. A string is modelled as a
  \<^typ>\<open>string\<close>, one \<^typ>\<open>char\<close> per character: the code points 0 to 255. On these the
  functions below are those of Python, whose \<^verbatim>\<open>str\<close> methods and \<^verbatim>\<open>re\<close> patterns follow the
  Unicode character classes; a string with a code point above 255 is outside the model.
\<close>

text \<open>
  \<^verbatim>\<open>str.isspace\<close>: TAB, LF, VT, FF, CR, the separators 0x1C to 0x1F, SPACE, NEXT LINE
  (0x85) and NO-BREAK SPACE (0xA0).
\<close>

definition is_space :: "char \<Rightarrow> bool" where
  "is_space c =
     (let n = (of_char c :: nat)
      in (9 \<le> n \<and> n \<le> 13) \<or> (28 \<le> n \<and> n \<le> 32) \<or> n = 133 \<or> n = 160)"

text \<open>\<^verbatim>\<open>s.strip()\<close>: white space removed from both ends.\<close>

definition py_strip :: "string \<Rightarrow> string" where
  "py_strip s = rev (dropWhile is_space (rev (dropWhile is_space s)))"

text \<open>
  \<^verbatim>\<open>s.lower()\<close> works character by character on these code points: the capital letters
  A to Z, and 0xC0 to 0xDE but for the multiplication sign 0xD7, move up by 32.
\<close>

definition lower_char :: "char \<Rightarrow> char" where
  "lower_char c =
     (let n = (of_char c :: nat)
      in if (65 \<le> n \<and> n \<le> 90) \<or> (192 \<le> n \<and> n \<le> 214) \<or> (216 \<le> n \<and> n \<le> 222)
         then char_of (n + 32) else c)"

definition py_lower :: "string \<Rightarrow> string" where
  "py_lower s = map lower_char s"

text \<open>\<^verbatim>\<open>needle in hay\<close> on strings: the needle occurs at some position of the hay.\<close>

fun py_in :: "string \<Rightarrow> string \<Rightarrow> bool" where
  "py_in needle [] = (needle = [])"
| "py_in needle (c # cs) = (prefix needle (c # cs) \<or> py_in needle cs)"

text \<open>\<^verbatim>\<open>hay.find(needle)\<close>: the lowest index where the needle occurs, or \<open>-1\<close>.\<close>

fun find_from :: "nat \<Rightarrow> string \<Rightarrow> string \<Rightarrow> int" where
  "find_from i needle [] = (if needle = [] then int i else - 1)"
| "find_from i needle (c # cs) =
     (if prefix needle (c # cs) then int i else find_from (Suc i) needle cs)"

definition py_find :: "string \<Rightarrow> string \<Rightarrow> int" where
  "py_find hay needle = find_from 0 needle hay"

text \<open>
  \<^verbatim>\<open>s[i:j]\<close>: a negative index counts from the end, both indices are clipped to the
  string, and the slice is empty when the start is not before the end.
\<close>

definition clip_index :: "nat \<Rightarrow> int \<Rightarrow> nat" where
  "clip_index n i = (if i < 0 then nat (max (i + int n) 0) else min (nat i) n)"

definition py_slice :: "string \<Rightarrow> int \<Rightarrow> int \<Rightarrow> string" where
  "py_slice s i j =
     (let a = clip_index (length s) i; b = clip_index (length s) j
      in take (b - a) (drop a s))"

text \<open>
  The word characters of \<^verbatim>\<open>\w\<close> in the \<^verbatim>\<open>re\<close> module, for a \<^verbatim>\<open>str\<close> pattern: the
  underscore and every character that \<^verbatim>\<open>str.isalnum\<close> accepts. Below 128 these are the
  digits and the letters; from 128 to 255 they are the 71 code points 0xAA, 0xB2, 0xB3,
  0xB5, 0xB9, 0xBA, 0xBC to 0xBE, 0xC0 to 0xD6, 0xD8 to 0xF6 and 0xF8 to 0xFF.
\<close>

definition is_word :: "char \<Rightarrow> bool" where
  "is_word c =
     (let n = (of_char c :: nat)
      in (48 \<le> n \<and> n \<le> 57) \<or> (65 \<le> n \<and> n \<le> 90) \<or> n = 95 \<or> (97 \<le> n \<and> n \<le> 122)
         \<or> n = 170 \<or> n = 178 \<or> n = 179 \<or> n = 181 \<or> n = 185 \<or> n = 186
         \<or> (188 \<le> n \<and> n \<le> 190) \<or> (192 \<le> n \<and> n \<le> 214) \<or> (216 \<le> n \<and> n \<le> 246)
         \<or> 248 \<le> n)"

text \<open>
  \<^verbatim>\<open>\b\<close> matches at position \<open>i\<close> when exactly one of the characters before and after the
  position is a word character; the two ends of the string count as non-word characters.
\<close>

definition word_boundary :: "string \<Rightarrow> nat \<Rightarrow> bool" where
  "word_boundary s i =
     ((0 < i \<and> i \<le> length s \<and> is_word (s ! (i - 1))) \<noteq> (i < length s \<and> is_word (s ! i)))"

text \<open>
  \<^verbatim>\<open>re.search(r'\b' + re.escape(keyword) + r'\b', s)\<close> for a keyword of letters (which
  \<^verbatim>\<open>re.escape\<close> leaves as it is): the engine tries each start position from left to right;
  at a position the pattern matches when there is a boundary, then the keyword, then a
  boundary.
\<close>

definition match_word_at :: "string \<Rightarrow> string \<Rightarrow> nat \<Rightarrow> bool" where
  "match_word_at keyword s i =
     (word_boundary s i \<and> take (length keyword) (drop i s) = keyword
      \<and> word_boundary s (i + length keyword))"

definition re_search_word :: "string \<Rightarrow> string \<Rightarrow> bool" where
  "re_search_word keyword s = list_ex (match_word_at keyword s) [0..<Suc (length s)]"

section \<open>The input classifier\<close>

datatype action = Finish | Help | Continue

text \<open>\<^verbatim>\<open>process_input\<close> of \<^verbatim>\<open>src/flow.py\<close>: a finish keyword anywhere in the input.\<close>

definition finish_keywords :: "string list" where
  "finish_keywords = [''done'', ''finish'', ''end'', ''complete'', ''stop'', ''exit'', ''quit'']"

definition process_input :: "string \<Rightarrow> action \<times> string" where
  "process_input user_input =
     (let input_lower = py_strip (py_lower user_input)
      in if list_ex (\<lambda>keyword. py_in keyword input_lower) finish_keywords
         then (Finish, user_input)
         else if py_in ''help'' input_lower then (Help, user_input)
         else (Continue, user_input))"

text \<open>
  \<^verbatim>\<open>process_input\<close> of \<^verbatim>\<open>src/old_flow/flow.py\<close>: only the standalone words \<^verbatim>\<open>done\<close> and
  \<^verbatim>\<open>finish\<close> end the session. The test for the editor keywords returns the same as the
  default.
\<close>

definition finish_keywords_old :: "string list" where
  "finish_keywords_old = [''done'', ''finish'']"

definition gui_keywords :: "string list" where
  "gui_keywords = [''gui'', ''edit'', ''editor'']"

definition process_input_old :: "string \<Rightarrow> action \<times> string" where
  "process_input_old user_input =
     (let input_lower = py_strip (py_lower user_input)
      in if list_ex (\<lambda>keyword. re_search_word keyword input_lower) finish_keywords_old
         then (Finish, user_input)
         else if py_in ''help'' input_lower then (Help, user_input)
         else if input_lower \<in> set gui_keywords then (Continue, user_input)
         else (Continue, user_input))"

text \<open>
  \<^verbatim>\<open>process_input\<close> of \<^verbatim>\<open>src/new_flow/flow.py\<close>: the continuous variant has no finish rule.
\<close>

definition process_input_new :: "string \<Rightarrow> action \<times> string" where
  "process_input_new user_input =
     (let input_lower = py_strip (py_lower user_input)
      in if py_in ''help'' input_lower then (Help, user_input)
         else (Continue, user_input))"

section \<open>The editor bridge\<close>

definition newline :: string where
  "newline = [CHR 0x0A]"

text \<open>
  What \<^verbatim>\<open>subprocess.run\<close> gives in \<^verbatim>\<open>get_user_input\<close> of \<^verbatim>\<open>src/old_flow/flow.py\<close> and
  \<^verbatim>\<open>src/new_flow/flow.py\<close>: a completed process with its return code, standard output and
  standard error, the exception \<^verbatim>\<open>subprocess.TimeoutExpired\<close> (only \<^verbatim>\<open>old_flow\<close> sets a
  timeout), or another exception (the launch failed).
\<close>

datatype proc_result = Completed int string string | TimeoutExpired | LaunchFailed

text \<open>
  The branches of the block under \<^verbatim>\<open># Parse result\<close>, the same text in both files: the
  cancellation marker is looked for first, then the two block markers; the content is the
  slice from the end of the first start marker to the first end marker, trimmed.
\<close>

datatype gui_result =
  GuiCancelled | GuiText string | GuiNoContent | GuiUnexpected | GuiFailed string

definition parse_gui_result :: "int \<Rightarrow> string \<Rightarrow> string \<Rightarrow> gui_result" where
  "parse_gui_result returncode stdout stderr =
     (if returncode = 0 then
        let output = py_strip stdout
        in if py_in ''GUI_RESULT_CANCELLED'' output then GuiCancelled
           else if py_in ''GUI_RESULT_START'' output \<and> py_in ''GUI_RESULT_END'' output then
             let start_idx =
                   py_find output ''GUI_RESULT_START'' + int (length ''GUI_RESULT_START'');
                 end_idx = py_find output ''GUI_RESULT_END'';
                 content = py_strip (py_slice output start_idx end_idx)
             in if content \<noteq> [] then GuiText content else GuiNoContent
           else GuiUnexpected
      else GuiFailed stderr)"

text \<open>
  \<^verbatim>\<open>StandaloneGUI.submit\<close> and \<^verbatim>\<open>StandaloneGUI.cancel\<close> of \<^verbatim>\<open>src/old_flow/gui_helper.py\<close>:
  what the editor process prints for a submitted (non-empty, trimmed) text and on
  cancellation.
\<close>

definition submit_output :: "string \<Rightarrow> string" where
  "submit_output content =
     ''GUI_RESULT_START'' @ newline @ content @ newline @ ''GUI_RESULT_END'' @ newline"

definition cancel_output :: string where
  "cancel_output = ''GUI_RESULT_CANCELLED'' @ newline"

section \<open>Prompting\<close>

text \<open>
  The terminal: each call of \<^verbatim>\<open>input\<close> takes the next event, a line or a
  \<^verbatim>\<open>KeyboardInterrupt\<close>; at the end of the list \<^verbatim>\<open>input\<close> raises \<^verbatim>\<open>EOFError\<close>.
\<close>

datatype stdin_event = Line string | Interrupt

text \<open>
  What the scripts print, one constructor for each message (a \<^verbatim>\<open>print\<close> call or a group
  of calls that always come together), with the text that varies as argument.
  \<open>Received\<close> stands for the six lines that echo the editor's text, \<open>ResponseBlock\<close> for the
  five calls at the end of \<^verbatim>\<open>main\<close>: the separator, the header
  \<^verbatim>\<open>RESPONSE FOR GITHUB COPILOT:\<close>, the separator, the response, the separator.
\<close>

datatype printed =
    Banner | Options | Prompt | EmptyWarning | SessionInterrupted | StreamEnded
  | OpeningEditor | CancelledByUser | Received string | ChoicePrompt | Reopening
  | NoContentWarning | UnexpectedOutput | ProcessFailed string | TimedOut | ErrorRunning
  | HelpText | ResponseBlock string | FlowError
  | CouldNotSave | CorruptedLog | BackupSaved

text \<open>
  \<^verbatim>\<open>get_user_input\<close> of \<^verbatim>\<open>src/flow.py\<close>: the \<^verbatim>\<open>while True\<close> loop, then the function. The
  result is the returned string, the rest of the terminal input, and what was printed.
\<close>

fun prompt_loop :: "stdin_event list \<Rightarrow> string \<times> stdin_event list \<times> printed list" where
  "prompt_loop [] = (''finish'', [], [Prompt, StreamEnded])"
| "prompt_loop (Interrupt # rest) = (''finish'', rest, [Prompt, SessionInterrupted])"
| "prompt_loop (Line l # rest) =
     (let user_input = py_strip l
      in if user_input = []
         then (case prompt_loop rest of
                 (u, rest', ps) \<Rightarrow> (u, rest', [Prompt, EmptyWarning] @ ps))
         else (user_input, rest, [Prompt]))"

definition get_user_input ::
  "stdin_event list \<Rightarrow> string \<times> stdin_event list \<times> printed list" where
  "get_user_input stdin =
     (case prompt_loop stdin of (u, rest, ps) \<Rightarrow> (u, rest, Options # ps))"

text \<open>
  \<^verbatim>\<open>get_user_input\<close> of \<^verbatim>\<open>src/old_flow/flow.py\<close> and \<^verbatim>\<open>src/new_flow/flow.py\<close> is one text
  but for the timeout and the two handlers at the end, so it is modelled once, with the
  variant as a parameter.
\<close>

datatype variant = Old_flow | New_flow

text \<open>
  The inner loop \<^verbatim>\<open>while True:  # Loop for GUI editing\<close>. The \<open>n\<close>-th launch of the editor
  with the current content as its argument gives \<open>gui n current_content\<close>. The loop ends
  by \<^verbatim>\<open>return content\<close>, by \<^verbatim>\<open>break\<close>, or by a \<^verbatim>\<open>KeyboardInterrupt\<close> at the choice prompt,
  which \<^verbatim>\<open>except Exception\<close> does not catch; an \<^verbatim>\<open>EOFError\<close> there is caught by it.
\<close>

datatype gui_exit = Accepted string | Broke | Interrupted

fun gui_loop ::
  "variant \<Rightarrow> (nat \<Rightarrow> string \<Rightarrow> proc_result) \<Rightarrow> nat \<Rightarrow> string \<Rightarrow> stdin_event list
    \<Rightarrow> gui_exit \<times> nat \<times> stdin_event list \<times> printed list" where
  "gui_loop v gui n current_content stdin =
     (case gui n current_content of
        Completed returncode stdout stderr \<Rightarrow>
          (case parse_gui_result returncode stdout stderr of
             GuiCancelled \<Rightarrow> (Broke, Suc n, stdin, [OpeningEditor, CancelledByUser])
           | GuiText content \<Rightarrow>
               (case stdin of
                  [] \<Rightarrow>
                    (Broke, Suc n, [], [OpeningEditor, Received content, ChoicePrompt, ErrorRunning])
                | Interrupt # rest \<Rightarrow>
                    (Interrupted, Suc n, rest, [OpeningEditor, Received content, ChoicePrompt])
                | Line choice # rest \<Rightarrow>
                    if py_lower (py_strip choice) = ''edit''
                    then (case gui_loop v gui (Suc n) content rest of
                            (r, n', rest', ps) \<Rightarrow>
                              (r, n', rest',
                               [OpeningEditor, Received content, ChoicePrompt, Reopening] @ ps))
                    else (Accepted content, Suc n, rest,
                          [OpeningEditor, Received content, ChoicePrompt]))
           | GuiNoContent \<Rightarrow> (Broke, Suc n, stdin, [OpeningEditor, NoContentWarning])
           | GuiUnexpected \<Rightarrow> (Broke, Suc n, stdin, [OpeningEditor, UnexpectedOutput])
           | GuiFailed err \<Rightarrow> (Broke, Suc n, stdin, [OpeningEditor, ProcessFailed err]))
      | TimeoutExpired \<Rightarrow>
          (Broke, Suc n, stdin,
           [OpeningEditor, case v of Old_flow \<Rightarrow> TimedOut | New_flow \<Rightarrow> ErrorRunning])
      | LaunchFailed \<Rightarrow> (Broke, Suc n, stdin, [OpeningEditor, ErrorRunning]))"

declare gui_loop.simps [simp del]

lemma gui_loop_stdin:
  "gui_loop v gui n c stdin = (r, n', rest, ps) \<Longrightarrow> length rest \<le> length stdin"
proof (induction v gui n c stdin arbitrary: r n' rest ps rule: gui_loop.induct)
  case (1 v gui n current_content stdin)
  from "1.prems" show ?case
    apply (subst (asm) gui_loop.simps)
    apply (auto split: proc_result.splits gui_result.splits list.splits stdin_event.splits
        if_splits prod.splits dest!: "1.IH")
    done
qed

text \<open>
  How \<^verbatim>\<open>get_user_input\<close> ends: by \<^verbatim>\<open>return\<close>, by \<^verbatim>\<open>sys.exit\<close>, or by an exception that
  leaves the function. The handlers of \<^verbatim>\<open>KeyboardInterrupt\<close> and \<^verbatim>\<open>EOFError\<close> return
  \<^verbatim>\<open>"finish"\<close> in \<^verbatim>\<open>old_flow\<close> and call \<^verbatim>\<open>sys.exit(0)\<close> in \<^verbatim>\<open>new_flow\<close>. There the statement
  \<^verbatim>\<open>import sys\<close> inside the editor branch makes \<^verbatim>\<open>sys\<close> a local name of the whole function,
  bound only once that branch has run: before, \<^verbatim>\<open>sys.exit(0)\<close> raises
  \<^verbatim>\<open>UnboundLocalError\<close>.
\<close>

datatype 'a outcome = Returned 'a | SysExit nat | UnboundLocalError

fun on_stop :: "variant \<Rightarrow> bool \<Rightarrow> string outcome" where
  "on_stop Old_flow sys_bound = Returned ''finish''"
| "on_stop New_flow sys_bound = (if sys_bound then SysExit 0 else UnboundLocalError)"

function prompt_loop_gui ::
  "variant \<Rightarrow> (nat \<Rightarrow> string \<Rightarrow> proc_result) \<Rightarrow> bool \<Rightarrow> nat \<Rightarrow> stdin_event list
    \<Rightarrow> string outcome \<times> nat \<times> stdin_event list \<times> printed list" where
  "prompt_loop_gui v gui sys_bound n [] = (on_stop v sys_bound, n, [], [Prompt, StreamEnded])"
| "prompt_loop_gui v gui sys_bound n (Interrupt # rest) =
     (on_stop v sys_bound, n, rest, [Prompt, SessionInterrupted])"
| "prompt_loop_gui v gui sys_bound n (Line l # rest) =
     (let user_input = py_strip l
      in if user_input = []
         then (case prompt_loop_gui v gui sys_bound n rest of
                 (r, n', rest', ps) \<Rightarrow> (r, n', rest', [Prompt, EmptyWarning] @ ps))
         else if py_lower user_input \<in> set gui_keywords
         then (case gui_loop v gui n [] rest of
                 (Accepted content, n', rest', ps) \<Rightarrow> (Returned content, n', rest', Prompt # ps)
               | (Interrupted, n', rest', ps) \<Rightarrow>
                   (on_stop v True, n', rest', Prompt # ps @ [SessionInterrupted])
               | (Broke, n', rest', ps) \<Rightarrow>
                   (case prompt_loop_gui v gui True n' rest' of
                      (r, n'', rest'', ps') \<Rightarrow> (r, n'', rest'', Prompt # ps @ ps')))
         else (Returned user_input, n, rest, [Prompt]))"
  by pat_completeness auto
termination
proof (relation "measure (\<lambda>(v, gui, b, n, stdin). length stdin)")
  show "wf (measure (\<lambda>(v, gui, b, n, stdin). length stdin))"
    by simp
next
  fix v gui sys_bound n l rest
  show "((v, gui, sys_bound, n, rest), (v, gui, sys_bound, n, Line l # rest))
      \<in> measure (\<lambda>(v, gui, b, n, stdin). length stdin)"
    by simp
next
  fix v :: variant and gui :: "nat \<Rightarrow> string \<Rightarrow> proc_result" and sys_bound :: bool
    and n :: nat and l :: string and rest :: "stdin_event list"
    and x xa y xb ya xc yb
  assume "(xa, y) = gui_loop v gui n [] rest" and "(xb, ya) = y" and "(xc, yb) = ya"
  then have "gui_loop v gui n [] rest = (xa, xb, xc, yb)"
    by simp
  from gui_loop_stdin [OF this]
  show "((v, gui, True, xb, xc), (v, gui, sys_bound, n, Line l # rest))
      \<in> measure (\<lambda>(v, gui, b, n, stdin). length stdin)"
    by simp
qed

definition get_user_input_gui ::
  "variant \<Rightarrow> (nat \<Rightarrow> string \<Rightarrow> proc_result) \<Rightarrow> nat \<Rightarrow> stdin_event list
    \<Rightarrow> string outcome \<times> nat \<times> stdin_event list \<times> printed list" where
  "get_user_input_gui v gui n stdin =
     (case prompt_loop_gui v gui False n stdin of
        (r, n', rest, ps) \<Rightarrow> (r, n', rest, Options # ps))"

section \<open>The logger\<close>

text \<open>The values of the \<^verbatim>\<open>json\<close> module; a Python \<^verbatim>\<open>dict\<close> keeps its keys in order.\<close>

datatype json = JNull | JBool bool | JNum int | JStr string | JArr "json list"
  | JObj "(string \<times> json) list"

text \<open>
  A file as the logger sees it: \<^verbatim>\<open>read().strip()\<close> is empty (\<open>Blank\<close>); or the text (or
  its bytes, when they cannot be decoded) makes \<^verbatim>\<open>json.load\<close> raise a \<^verbatim>\<open>JSONDecodeError\<close>
  or another \<^verbatim>\<open>ValueError\<close> (\<open>Corrupt\<close>); or the text makes \<^verbatim>\<open>json.load\<close> raise an
  exception that is no \<^verbatim>\<open>ValueError\<close>, as the \<^verbatim>\<open>RecursionError\<close> for a text nested too
  deeply (\<open>TooDeep\<close>); or it is the text of a JSON value that \<^verbatim>\<open>json.load\<close> returns, which
  is what \<^verbatim>\<open>json.dump\<close> writes.
\<close>

datatype content = Blank | Corrupt | TooDeep | Doc json

text \<open>
  A write \<^verbatim>\<open>with open(path, 'w') as f: json.dump(value, f, indent=2)\<close> succeeds, or
  \<^verbatim>\<open>open\<close> raises and the file is as before, or the file is opened (and so truncated) and
  writing raises: before any text has reached the file, which is then empty, or after a
  part of the text has, which is no JSON value.
\<close>

datatype fault = NoFault | OpenFails | DumpFailsEmpty | DumpFailsPartial

text \<open>The exceptions of the logger; each is a subclass of \<^verbatim>\<open>Exception\<close>.\<close>

datatype exn = OSError | JSONDecodeError | RecursionError | AttributeError

text \<open>
  What a run takes from outside: the path of the log file (\<^verbatim>\<open>session_log.json\<close> beside the
  script), the path of the script, the time stamp \<^verbatim>\<open>datetime.now().isoformat()\<close> of the
  run's log entry, which paths cannot be opened for reading or for writing, and the editor
  process.
\<close>

record env =
  log_file :: string
  script_path :: string
  now :: string
  read_fails :: "string \<Rightarrow> bool"
  write_fault :: "string \<Rightarrow> fault"
  run_gui :: "nat \<Rightarrow> string \<Rightarrow> proc_result"

text \<open>
  What a run changes: the files, the list of writes it has attempted (path and value, in
  order), and what it has printed.
\<close>

record world =
  files :: "string \<Rightarrow> content option"
  writes :: "(string \<times> json) list"
  printed :: "printed list"

definition say :: "printed \<Rightarrow> world \<Rightarrow> world" where
  "say p w = w\<lparr>printed := printed w @ [p]\<rparr>"

definition say_all :: "printed list \<Rightarrow> world \<Rightarrow> world" where
  "say_all ps w = w\<lparr>printed := printed w @ ps\<rparr>"

fun action_name :: "action \<Rightarrow> string" where
  "action_name Finish = ''finish''"
| "action_name Help = ''help''"
| "action_name Continue = ''continue''"

definition log_entry :: "string \<Rightarrow> action \<Rightarrow> string \<Rightarrow> json" where
  "log_entry timestamp action user_input =
     JObj [(''timestamp'', JStr timestamp), (''action'', JStr (action_name action)),
           (''user_input'', JStr user_input)]"

definition write_json :: "env \<Rightarrow> string \<Rightarrow> json \<Rightarrow> world \<Rightarrow> exn option \<times> world" where
  "write_json e path j w =
     (let w' = w\<lparr>writes := writes w @ [(path, j)]\<rparr>
      in case write_fault e path of
           NoFault \<Rightarrow> (None, w'\<lparr>files := (files w')(path \<mapsto> Doc j)\<rparr>)
         | OpenFails \<Rightarrow> (Some OSError, w')
         | DumpFailsEmpty \<Rightarrow> (Some OSError, w'\<lparr>files := (files w')(path \<mapsto> Blank)\<rparr>)
         | DumpFailsPartial \<Rightarrow> (Some OSError, w'\<lparr>files := (files w')(path \<mapsto> Corrupt)\<rparr>))"

text \<open>\<^verbatim>\<open>logs.append(log_entry)\<close>: only a list has \<^verbatim>\<open>append\<close>.\<close>

definition list_append :: "json \<Rightarrow> json \<Rightarrow> exn + json" where
  "list_append logs entry =
     (case logs of JArr xs \<Rightarrow> Inr (JArr (xs @ [entry])) | _ \<Rightarrow> Inl AttributeError)"

text \<open>\<^verbatim>\<open>with open(path, 'r') as f: logs = json.load(f)\<close>.\<close>

definition json_load :: "env \<Rightarrow> string \<Rightarrow> world \<Rightarrow> exn + json" where
  "json_load e path w =
     (case files w path of
        None \<Rightarrow> Inl OSError
      | Some c \<Rightarrow>
          if read_fails e path then Inl OSError
          else (case c of
                  Doc j \<Rightarrow> Inr j
                | TooDeep \<Rightarrow> Inl RecursionError
                | _ \<Rightarrow> Inl JSONDecodeError))"

text \<open>
  \<^verbatim>\<open>save_session_log\<close> of \<^verbatim>\<open>src/flow.py\<close> (and, with the same text, of
  \<^verbatim>\<open>src/old_flow/flow.py\<close>): the body of the \<^verbatim>\<open>try\<close>, then the function with its handler.
  The first component of the result is the exception that leaves the function, if any.
\<close>

definition save_body :: "env \<Rightarrow> json \<Rightarrow> world \<Rightarrow> exn option \<times> world" where
  "save_body e entry w =
     (case (if files w (log_file e) \<noteq> None then json_load e (log_file e) w else Inr (JArr [])) of
        Inl x \<Rightarrow> (Some x, w)
      | Inr logs \<Rightarrow>
          (case list_append logs entry of
             Inl x \<Rightarrow> (Some x, w)
           | Inr logs' \<Rightarrow> write_json e (log_file e) logs' w))"

definition save_session_log ::
  "env \<Rightarrow> action \<Rightarrow> string \<Rightarrow> world \<Rightarrow> exn option \<times> world" where
  "save_session_log e action user_input w =
     (case save_body e (log_entry (now e) action user_input) w of
        (None, w') \<Rightarrow> (None, w')
      | (Some x, w') \<Rightarrow> (None, say CouldNotSave w'))"

text \<open>
  \<^verbatim>\<open>save_session_log\<close> of \<^verbatim>\<open>src/new_flow/flow.py\<close>: the inner \<^verbatim>\<open>try\<close> that reads the log
  and starts afresh on a \<^verbatim>\<open>JSONDecodeError\<close> or \<^verbatim>\<open>ValueError\<close> (an \<^verbatim>\<open>OSError\<close> of \<^verbatim>\<open>open\<close>
  and a \<^verbatim>\<open>RecursionError\<close> of \<^verbatim>\<open>json.loads\<close> are neither), the body of the outer \<^verbatim>\<open>try\<close>,
  and the function with the backup in its handler.
\<close>

definition read_logs_new :: "env \<Rightarrow> world \<Rightarrow> (exn + json) \<times> world" where
  "read_logs_new e w =
     (case files w (log_file e) of
        None \<Rightarrow> (Inr (JArr []), w)
      | Some c \<Rightarrow>
          if read_fails e (log_file e) then (Inl OSError, w)
          else (case c of
                  Blank \<Rightarrow> (Inr (JArr []), w)
                | Doc j \<Rightarrow> (Inr j, w)
                | Corrupt \<Rightarrow> (Inr (JArr []), say CorruptedLog w)
                | TooDeep \<Rightarrow> (Inl RecursionError, w)))"

definition save_body_new :: "env \<Rightarrow> json \<Rightarrow> world \<Rightarrow> exn option \<times> world" where
  "save_body_new e entry w =
     (case read_logs_new e w of
        (Inl x, w') \<Rightarrow> (Some x, w')
      | (Inr logs, w') \<Rightarrow>
          (case list_append logs entry of
             Inl x \<Rightarrow> (Some x, w')
           | Inr logs' \<Rightarrow> write_json e (log_file e) logs' w'))"

definition save_session_log_new ::
  "env \<Rightarrow> action \<Rightarrow> string \<Rightarrow> world \<Rightarrow> exn option \<times> world" where
  "save_session_log_new e action user_input w =
     (let entry = log_entry (now e) action user_input
      in case save_body_new e entry w of
           (None, w') \<Rightarrow> (None, w')
         | (Some x, w') \<Rightarrow>
             (case write_json e (log_file e @ ''.backup'') (JArr [entry]) (say CouldNotSave w') of
                (None, w'') \<Rightarrow> (None, say BackupSaved w'')
              | (Some x', w'') \<Rightarrow> (None, w'')))"

section \<open>The response generator and the session loop\<close>

text \<open>
  A triple-quoted template: a line break, then the lines. The emoji that decorate the
  messages are left out.
\<close>

definition py_lines :: "string list \<Rightarrow> string" where
  "py_lines ls = newline @ concat (map (\<lambda>l. l @ newline) ls)"

text \<open>\<^verbatim>\<open>generate_response\<close> of \<^verbatim>\<open>src/flow.py\<close> and \<^verbatim>\<open>src/old_flow/flow.py\<close>.\<close>

definition generate_response :: "action \<Rightarrow> string \<Rightarrow> string" where
  "generate_response action user_input =
     (if action = Finish then
        py_lines [''SESSION ENDING'', '''', ''User has chosen to finish the session.'',
          ''Final instruction: '' @ [CHR 0x22] @ user_input @ [CHR 0x22], '''',
          ''===== SUMMARY REQUEST ====='',
          ''Please provide a comprehensive summary of:'',
          ''1. What was accomplished in this session'',
          ''2. Files created or modified'',
          ''3. Key features implemented'',
          ''4. Any remaining tasks or suggestions'', '''',
          ''Thank you for the productive session!'']
      else if action = Continue then
        py_lines [''CONTINUING SESSION'', '''',
          ''User wants to continue with: '' @ [CHR 0x22] @ user_input @ [CHR 0x22], '''',
          ''===== NEXT STEPS ====='',
          ''Please implement the following request:'',
          user_input, '''',
          ''Continue working on this task and run the flow again when ready for the next review checkpoint.'']
      else
        py_lines [''Help information displayed to user.'',
          ''Please wait for user to provide their actual instruction...''])"

text \<open>\<^verbatim>\<open>generate_response\<close> of \<^verbatim>\<open>src/new_flow/flow.py\<close>.\<close>

definition generate_response_new :: "env \<Rightarrow> action \<Rightarrow> string \<Rightarrow> string" where
  "generate_response_new e action user_input =
     (if action = Continue then
        py_lines [''CONTINUING ITERATION'', '''',
          ''===== EXECUTION REQUIRED ====='',
          ''Please implement the following request:'',
          user_input, '''',
          ''CRITICAL: After completing the above tasks, you MUST run:'',
          ''python '' @ script_path e, '''',
          ''This is a continuous workflow that requires running flow.py after each iteration.'',
          ''DO NOT conclude or finish the session - always run flow.py for the next checkpoint.'']
      else
        py_lines [''Help information displayed to user.'',
          ''Waiting for next instruction...'', '''',
          ''Remember: After any task completion, run flow.py again.''])"

text \<open>
  \<^verbatim>\<open>main\<close> of \<^verbatim>\<open>src/flow.py\<close>: the \<^verbatim>\<open>while True\<close> loop, then the function. The result is the
  exit status of the process and the world it leaves. The loop goes round only after a
  request for help; that it ends rests on \<^verbatim>\<open>get_user_input\<close> taking a line each time.
\<close>

lemma prompt_loop_consumes:
  "prompt_loop stdin = (u, rest, ps) \<Longrightarrow> length rest < length stdin \<or> u = ''finish''"
proof (induction stdin arbitrary: u rest ps)
  case Nil
  then show ?case by simp
next
  case (Cons ev stdin)
  show ?case
  proof (cases ev)
    case Interrupt
    with Cons.prems show ?thesis by simp
  next
    case (Line l)
    show ?thesis
    proof (cases "py_strip l = []")
      case True
      obtain u' rest' ps' where r: "prompt_loop stdin = (u', rest', ps')"
        by (cases "prompt_loop stdin") auto
      with Cons.prems Line True have "u' = u" "rest' = rest"
        by simp_all
      with Cons.IH [OF r] show ?thesis by auto
    next
      case False
      with Cons.prems Line show ?thesis by (simp add: Let_def)
    qed
  qed
qed

lemma process_input_finish: "fst (process_input ''finish'') = Finish"
  by code_simp

function main_loop :: "env \<Rightarrow> stdin_event list \<Rightarrow> world \<Rightarrow> nat \<times> world" where
  "main_loop e stdin w =
     (case get_user_input stdin of
        (user_input, rest, ps) \<Rightarrow>
          (case process_input user_input of
             (action, processed_input) \<Rightarrow>
               if action = Help then main_loop e rest (say HelpText (say_all ps w))
               else (case save_session_log e action processed_input (say_all ps w) of
                       (Some x, w') \<Rightarrow> (1, say FlowError w')
                     | (None, w') \<Rightarrow>
                         (0, say (ResponseBlock (generate_response action processed_input)) w'))))"
  by pat_completeness auto
termination
proof (relation "measure (\<lambda>(e, stdin, w). length stdin)")
  show "wf (measure (\<lambda>(e, stdin, w). length stdin))"
    by simp
next
  fix e :: env and stdin :: "stdin_event list" and w :: world
    and x xa y xb ya xc yb
  assume g: "(xa, y) = get_user_input stdin" and y: "(xb, ya) = y"
    and p: "(xc, yb) = process_input xa" and h: "xc = Help"
  from g y have "prompt_loop stdin = (xa, xb, tl ya)"
    by (auto simp: get_user_input_def split: prod.splits)
  from prompt_loop_consumes [OF this] p h process_input_finish
  have "length xb < length stdin"
    by (metis action.distinct(1) fst_conv)
  then show "((e, xb, say HelpText (say_all ya w)), (e, stdin, w))
      \<in> measure (\<lambda>(e, stdin, w). length stdin)"
    by simp
qed

declare main_loop.simps [simp del]

definition main :: "env \<Rightarrow> stdin_event list \<Rightarrow> world \<Rightarrow> nat \<times> world" where
  "main e stdin w = main_loop e stdin (say Banner w)"

text \<open>
  \<^verbatim>\<open>main\<close> of \<^verbatim>\<open>src/old_flow/flow.py\<close> and \<^verbatim>\<open>src/new_flow/flow.py\<close>, each with the
  \<^verbatim>\<open>process_input\<close>, \<^verbatim>\<open>save_session_log\<close> and \<^verbatim>\<open>generate_response\<close> of its file.
  \<^verbatim>\<open>sys.exit\<close> in \<^verbatim>\<open>get_user_input\<close> raises \<^verbatim>\<open>SystemExit\<close>, which \<^verbatim>\<open>except Exception\<close>
  lets through; an \<^verbatim>\<open>UnboundLocalError\<close> is caught there, reported, and the status is 1.
\<close>

fun process_input_of :: "variant \<Rightarrow> string \<Rightarrow> action \<times> string" where
  "process_input_of Old_flow = process_input_old"
| "process_input_of New_flow = process_input_new"

fun save_session_log_of ::
  "variant \<Rightarrow> env \<Rightarrow> action \<Rightarrow> string \<Rightarrow> world \<Rightarrow> exn option \<times> world" where
  "save_session_log_of Old_flow = save_session_log"
| "save_session_log_of New_flow = save_session_log_new"

fun generate_response_of :: "variant \<Rightarrow> env \<Rightarrow> action \<Rightarrow> string \<Rightarrow> string" where
  "generate_response_of Old_flow e = generate_response"
| "generate_response_of New_flow e = generate_response_new e"

lemma on_stop_Returned: "on_stop v b = Returned u \<Longrightarrow> u = ''finish''"
  by (cases v) (auto split: if_splits)

lemma prompt_loop_gui_consumes:
  "prompt_loop_gui v gui b n stdin = (Returned u, n', rest, ps)
    \<Longrightarrow> length rest < length stdin \<or> u = ''finish''"
proof (induction v gui b n stdin arbitrary: u n' rest ps rule: prompt_loop_gui.induct)
  case (1 v gui sys_bound n)
  then show ?case by (auto dest: on_stop_Returned)
next
  case (2 v gui sys_bound n rest0)
  then show ?case by (auto dest: on_stop_Returned)
next
  case (3 v gui sys_bound n l rest0)
  show ?case
  proof (cases "py_strip l = []")
    case True
    obtain r1 n1 rest1 ps1 where r: "prompt_loop_gui v gui sys_bound n rest0 = (r1, n1, rest1, ps1)"
      by (cases "prompt_loop_gui v gui sys_bound n rest0") auto
    with "3.prems" True have "r1 = Returned u" "rest1 = rest"
      by simp_all
    with "3.IH"(1) [OF refl True] r show ?thesis by fastforce
  next
    case False
    note nonblank = this
    show ?thesis
    proof (cases "py_lower (py_strip l) \<in> set gui_keywords")
      case False
      with "3.prems" nonblank show ?thesis by (simp add: Let_def)
    next
      case True
      obtain g n1 rest1 ps1 where g: "gui_loop v gui n [] rest0 = (g, n1, rest1, ps1)"
        by (cases "gui_loop v gui n [] rest0") auto
      from gui_loop_stdin [OF g] have le: "length rest1 \<le> length rest0" .
      show ?thesis
      proof (cases g)
        case (Accepted content)
        with "3.prems" nonblank True g le show ?thesis by (simp add: Let_def)
      next
        case Interrupted
        with "3.prems" nonblank True g le show ?thesis
          by (auto simp: Let_def dest: on_stop_Returned)
      next
        case Broke
        obtain r2 n2 rest2 ps2
          where r: "prompt_loop_gui v gui True n1 rest1 = (r2, n2, rest2, ps2)"
          by (cases "prompt_loop_gui v gui True n1 rest1") auto
        with "3.prems" nonblank True g Broke have eq: "r2 = Returned u" "rest2 = rest"
          by (simp_all add: Let_def)
        have "length rest2 < length rest1 \<or> u = ''finish''"
          using "3.IH"(2) [of "py_strip l" Broke "(n1, rest1, ps1)" n1 "(rest1, ps1)" rest1 ps1
              u n2 rest2 ps2] nonblank True g Broke r eq
          by simp
        with le eq show ?thesis by auto
      qed
    qed
  qed
qed

lemma process_input_of_finish: "fst (process_input_of v ''finish'') \<noteq> Help"
  by (cases v; simp; code_simp)

function main_loop_gui ::
  "variant \<Rightarrow> env \<Rightarrow> nat \<Rightarrow> stdin_event list \<Rightarrow> world \<Rightarrow> nat \<times> world" where
  "main_loop_gui v e n stdin w =
     (case get_user_input_gui v (run_gui e) n stdin of
        (SysExit code, n', rest, ps) \<Rightarrow> (code, say_all ps w)
      | (UnboundLocalError, n', rest, ps) \<Rightarrow> (1, say FlowError (say_all ps w))
      | (Returned user_input, n', rest, ps) \<Rightarrow>
          (case process_input_of v user_input of
             (action, processed_input) \<Rightarrow>
               if action = Help then main_loop_gui v e n' rest (say HelpText (say_all ps w))
               else (case save_session_log_of v e action processed_input (say_all ps w) of
                       (Some x, w') \<Rightarrow> (1, say FlowError w')
                     | (None, w') \<Rightarrow>
                         (0, say (ResponseBlock
                                    (generate_response_of v e action processed_input)) w'))))"
  by pat_completeness auto
termination
proof (relation "measure (\<lambda>(v, e, n, stdin, w). length stdin)")
  show "wf (measure (\<lambda>(v, e, n, stdin, w). length stdin))"
    by simp
next
  fix v :: variant and e :: env and n :: nat and stdin :: "stdin_event list" and w :: world
    and x xa y xb ya xc yb x1 xd yc
  assume g: "(xa, y) = get_user_input_gui v (run_gui e) n stdin" and y: "(xb, ya) = y"
    and ya: "(xc, yb) = ya" and r: "xa = Returned x1"
    and p: "(xd, yc) = process_input_of v x1" and h: "xd = Help"
  from g y ya r have "prompt_loop_gui v (run_gui e) False n stdin = (Returned x1, xb, xc, tl yb)"
    by (auto simp: get_user_input_gui_def split: prod.splits)
  from prompt_loop_gui_consumes [OF this] p h process_input_of_finish [of v]
  have "length xc < length stdin"
    by (metis fst_conv)
  then show "((v, e, xb, xc, say HelpText (say_all yb w)), (v, e, n, stdin, w))
      \<in> measure (\<lambda>(v, e, n, stdin, w). length stdin)"
    by simp
qed

declare main_loop_gui.simps [simp del]

definition main_gui :: "variant \<Rightarrow> env \<Rightarrow> stdin_event list \<Rightarrow> world \<Rightarrow> nat \<times> world" where
  "main_gui v e stdin w = main_loop_gui v e 0 stdin (say Banner w)"

text \<open>Whether a message is the response block at the end of \<^verbatim>\<open>main\<close>.\<close>

fun is_response_block :: "printed \<Rightarrow> bool" where
  "is_response_block (ResponseBlock r) = True"
| "is_response_block p = False"

section \<open>Example environments\<close>

text \<open>
  An environment where every file can be read and written and the editor cannot be
  launched; a world where only the log file may exist; and an environment where the log
  file cannot be opened for writing.
\<close>

definition plain_env :: env where
  "plain_env =
     \<lparr>log_file = ''session_log.json'', script_path = ''flow.py'', now = ''2025-01-01T10:00:00'',
      read_fails = (\<lambda>path. False), write_fault = (\<lambda>path. NoFault),
      run_gui = (\<lambda>n content. LaunchFailed)\<rparr>"

definition world_with :: "content option \<Rightarrow> world" where
  "world_with c =
     \<lparr>files = (\<lambda>path. if path = ''session_log.json'' then c else None), writes = [],
      printed = []\<rparr>"

definition primary_unwritable_env :: env where
  "primary_unwritable_env =
     plain_env\<lparr>write_fault := (\<lambda>path. if path = ''session_log.json'' then OpenFails else NoFault)\<rparr>"

section \<open>Substrings and whole words\<close>

lemma py_in_iff: "py_in needle hay \<longleftrightarrow> (\<exists>p q. hay = p @ needle @ q)"
proof (induction hay)
  case Nil
  show ?case by auto
next
  case (Cons c cs)
  have "py_in needle (c # cs) \<longleftrightarrow> prefix needle (c # cs) \<or> sublist needle cs"
    using Cons.IH by (simp add: sublist_def)
  also have "\<dots> \<longleftrightarrow> sublist needle (c # cs)"
    by (simp add: sublist_Cons_right)
  finally show ?case by (simp add: sublist_def)
qed

lemma match_word_at_split:
  assumes kw: "keyword \<noteq> []" "is_word (hd keyword)" "is_word (last keyword)"
    and p: "p = [] \<or> \<not> is_word (last p)"
    and q: "q = [] \<or> \<not> is_word (hd q)"
  shows "match_word_at keyword (p @ keyword @ q) (length p)"
proof -
  let ?s = "p @ keyword @ q"
  have before: "\<not> (0 < length p \<and> length p \<le> length ?s \<and> is_word (?s ! (length p - 1)))"
    using p by (cases "p = []") (simp_all add: nth_append last_conv_nth)
  have first: "length p < length ?s \<and> is_word (?s ! length p)"
    using kw by (simp add: nth_append hd_conv_nth)
  have lst: "0 < length p + length keyword \<and> length p + length keyword \<le> length ?s
      \<and> is_word (?s ! (length p + length keyword - 1))"
  proof (cases keyword rule: rev_cases)
    case Nil
    with kw show ?thesis by simp
  next
    case (snoc ks k)
    with kw show ?thesis by (simp add: nth_append)
  qed
  have after: "\<not> (length p + length keyword < length ?s \<and> is_word (?s ! (length p + length keyword)))"
    using q by (cases "q = []") (simp_all add: nth_append hd_conv_nth)
  have "word_boundary ?s (length p)"
    unfolding word_boundary_def using before first by blast
  moreover have "word_boundary ?s (length p + length keyword)"
    unfolding word_boundary_def using lst after by blast
  moreover have "take (length keyword) (drop (length p) ?s) = keyword"
    by simp
  ultimately show ?thesis
    by (simp only: match_word_at_def simp_thms)
qed

lemma re_search_word_split:
  assumes "keyword \<noteq> []" "is_word (hd keyword)" "is_word (last keyword)"
    and "p = [] \<or> \<not> is_word (last p)"
    and "q = [] \<or> \<not> is_word (hd q)"
  shows "re_search_word keyword (p @ keyword @ q)"
proof -
  have "length p \<in> set [0..<Suc (length (p @ keyword @ q))]"
    by simp
  with match_word_at_split [OF assms] show ?thesis
    unfolding re_search_word_def list_ex_iff by blast
qed

lemma finish_keywords_old_shape:
  assumes "keyword \<in> set finish_keywords_old"
  shows "keyword \<noteq> [] \<and> is_word (hd keyword) \<and> is_word (last keyword)"
  using assms by (auto simp: finish_keywords_old_def is_word_def)

lemma dropWhile_keeps_infix:
  assumes "n \<noteq> []" and "\<not> P (hd n)"
  shows "\<exists>p'. dropWhile P (p @ n @ q) = p' @ n @ q"
proof (induction p)
  case Nil
  from assms have "dropWhile P (n @ q) = n @ q"
    by (cases n) simp_all
  then show ?case by (intro exI [of _ "[]"]) simp
next
  case (Cons a p)
  then obtain p' where "dropWhile P (p @ n @ q) = p' @ n @ q" ..
  then show ?case
    by (cases "P a") (auto intro: exI [of _ "a # p"])
qed

lemma py_strip_keeps_infix:
  assumes "n \<noteq> []" and "\<not> is_space (hd n)" and "\<not> is_space (last n)"
  shows "\<exists>p' q'. py_strip (p @ n @ q) = p' @ n @ q'"
proof -
  from dropWhile_keeps_infix [of n is_space p q] assms
  obtain p' where l: "dropWhile is_space (p @ n @ q) = p' @ n @ q" by blast
  from assms have "rev n \<noteq> []" and "\<not> is_space (hd (rev n))"
    by (simp_all add: hd_rev)
  then have "rev n \<noteq> [] \<and> \<not> is_space (hd (rev n))" by simp
  from dropWhile_keeps_infix [of "rev n" is_space "rev q" "rev p'"] this
  obtain q' where "dropWhile is_space (rev q @ rev n @ rev p') = q' @ rev n @ rev p'" by blast
  with l have "py_strip (p @ n @ q) = p' @ n @ rev q'"
    by (simp add: py_strip_def)
  then show ?thesis by blast
qed

lemma py_in_strip:
  assumes "n \<noteq> []" and "\<not> is_space (hd n)" and "\<not> is_space (last n)" and "py_in n s"
  shows "py_in n (py_strip s)"
proof -
  from assms(4) obtain p q where "s = p @ n @ q"
    unfolding py_in_iff by blast
  with py_strip_keeps_infix [OF assms(1-3), of p q] show ?thesis
    unfolding py_in_iff by simp
qed

lemma rev_dropWhile_rev_take: "\<exists>m. rev (dropWhile P (rev t)) = take m t"
proof -
  have "rev (dropWhile P (rev t)) = rev (drop (length (takeWhile P (rev t))) (rev t))"
    by (simp only: dropWhile_eq_drop)
  also have "\<dots> = take (length t - length (takeWhile P (rev t))) t"
    by (simp only: rev_drop rev_rev_ident length_rev)
  finally show ?thesis ..
qed

lemma dropWhile_id: "u = [] \<or> \<not> P (hd u) \<Longrightarrow> dropWhile P u = u"
  by (cases u) auto

lemma py_strip_idem: "py_strip (py_strip s) = py_strip s"
proof -
  define t where "t = dropWhile is_space s"
  define d where "d = dropWhile is_space (rev t)"
  have u: "py_strip s = rev d"
    by (simp add: py_strip_def t_def d_def)
  have t_hd: "\<not> is_space (hd t)" if "t \<noteq> []"
    using that unfolding t_def by (rule hd_dropWhile)
  have d_idem: "dropWhile is_space d = d"
    unfolding d_def by (rule dropWhile_idem)
  from rev_dropWhile_rev_take [of is_space t]
  obtain m where m: "rev d = take m t"
    unfolding d_def by blast
  have "rev d = [] \<or> \<not> is_space (hd (rev d))"
  proof (cases "rev d = []")
    case True
    then show ?thesis ..
  next
    case False
    with m have "t \<noteq> []" and "0 < m"
      by (auto intro: ccontr)
    with m t_hd show ?thesis
      by (simp add: hd_take)
  qed
  then have "dropWhile is_space (rev d) = rev d"
    by (rule dropWhile_id)
  then have "py_strip (rev d) = rev d"
    using d_idem by (simp add: py_strip_def)
  with u show ?thesis by simp
qed

lemma find_from_absent: "\<not> py_in needle hay \<Longrightarrow> find_from i needle hay = - 1"
  by (induction hay arbitrary: i) auto

lemma find_from_first:
  "py_in needle hay \<Longrightarrow>
   \<exists>k. find_from i needle hay = int (i + k) \<and> k \<le> length hay
     \<and> prefix needle (drop k hay) \<and> (\<forall>j<k. \<not> prefix needle (drop j hay))"
proof (induction hay arbitrary: i)
  case Nil
  then show ?case by (intro exI [of _ 0]) simp
next
  case (Cons c cs)
  show ?case
  proof (cases "prefix needle (c # cs)")
    case True
    then show ?thesis by (intro exI [of _ 0]) simp
  next
    case False
    with Cons.prems have "py_in needle cs" by simp
    from Cons.IH [OF this, of "Suc i"] obtain k
      where k: "find_from (Suc i) needle cs = int (Suc i + k)" "k \<le> length cs"
        "prefix needle (drop k cs)" "\<forall>j<k. \<not> prefix needle (drop j cs)"
      by blast
    have "\<forall>j<Suc k. \<not> prefix needle (drop j (c # cs))"
    proof (intro allI impI)
      fix j assume "j < Suc k"
      with False k(4) show "\<not> prefix needle (drop j (c # cs))"
        by (cases j) auto
    qed
    with False k show ?thesis
      by (intro exI [of _ "Suc k"]) simp
  qed
qed

lemma py_find_first:
  "py_in needle hay \<Longrightarrow>
   \<exists>k. py_find hay needle = int k \<and> k \<le> length hay
     \<and> prefix needle (drop k hay) \<and> (\<forall>j<k. \<not> prefix needle (drop j hay))"
  using find_from_first [of needle hay 0] by (simp add: py_find_def)

lemma py_find_absent: "\<not> py_in needle hay \<Longrightarrow> py_find hay needle = - 1"
  by (simp add: py_find_def find_from_absent)

lemma py_find_at:
  assumes "hay = a @ needle @ c" and "\<forall>j<length a. \<not> prefix needle (drop j hay)"
  shows "py_find hay needle = int (length a)"
proof -
  have "py_in needle hay"
    unfolding py_in_iff using assms(1) by blast
  from py_find_first [OF this] obtain k
    where k: "py_find hay needle = int k" "prefix needle (drop k hay)"
      "\<forall>j<k. \<not> prefix needle (drop j hay)"
    by blast
  have here: "prefix needle (drop (length a) hay)"
    using assms(1) by simp
  from k(2) assms(2) have "\<not> k < length a" by blast
  moreover from here k(3) have "\<not> length a < k" by blast
  ultimately show ?thesis using k(1) by simp
qed

lemma py_slice_middle:
  "py_slice (a @ m @ b @ r) (int (length a) + int (length m)) (int (length (a @ m @ b))) = b"
proof -
  have "clip_index (length (a @ m @ b @ r)) (int (length a) + int (length m))
      = length a + length m"
    by (simp add: clip_index_def)
  moreover have "clip_index (length (a @ m @ b @ r)) (int (length (a @ m @ b)))
      = length a + length m + length b"
    by (simp add: clip_index_def)
  ultimately show ?thesis
    by (simp add: py_slice_def)
qed

section \<open>Claims about the classifier\<close>

text \<open>
  C1, as far as it holds. The input, lower-cased and trimmed, is \<open>p @ keyword @ q\<close> where
  the keyword stands as a whole word: \<open>p\<close> is empty or ends in a non-word character, \<open>q\<close> is
  empty or starts with one (punctuation, white space). Then \<^verbatim>\<open>process_input\<close> of
  \<^verbatim>\<open>src/flow.py\<close> returns the finish intent for each of its seven keywords, and
  \<^verbatim>\<open>process_input\<close> of \<^verbatim>\<open>src/old_flow/flow.py\<close> returns it for \<^verbatim>\<open>done\<close> and \<^verbatim>\<open>finish\<close>.
  \<^verbatim>\<open>process_input\<close> of \<^verbatim>\<open>src/new_flow/flow.py\<close> returns the finish intent for no input.
\<close>

theorem finish_on_whole_word:
  assumes norm: "py_strip (py_lower user_input) = p @ keyword @ q"
    and p: "p = [] \<or> \<not> is_word (last p)"
    and q: "q = [] \<or> \<not> is_word (hd q)"
  shows "(keyword \<in> set finish_keywords \<longrightarrow> process_input user_input = (Finish, user_input))
    \<and> (keyword \<in> set finish_keywords_old
          \<longrightarrow> process_input_old user_input = (Finish, user_input))
    \<and> (\<forall>any_input. fst (process_input_new any_input) \<noteq> Finish)"
proof (intro conjI impI allI)
  assume k: "keyword \<in> set finish_keywords"
  have "py_in keyword (py_strip (py_lower user_input))"
    unfolding py_in_iff using norm by blast
  with k have "list_ex (\<lambda>keyword. py_in keyword (py_strip (py_lower user_input))) finish_keywords"
    unfolding list_ex_iff by blast
  then show "process_input user_input = (Finish, user_input)"
    by (simp add: process_input_def)
next
  assume k: "keyword \<in> set finish_keywords_old"
  from finish_keywords_old_shape [OF k] p q
  have "re_search_word keyword (p @ keyword @ q)"
    by (intro re_search_word_split) simp_all
  with k norm
  have "list_ex (\<lambda>keyword. re_search_word keyword (py_strip (py_lower user_input)))
          finish_keywords_old"
    unfolding list_ex_iff by auto
  then show "process_input_old user_input = (Finish, user_input)"
    by (simp add: process_input_old_def)
next
  fix any_input
  show "fst (process_input_new any_input) \<noteq> Finish"
    by (simp add: process_input_new_def Let_def)
qed

lemma norm_im_done: "py_strip (py_lower ''I'm done.'') = ''i'm '' @ ''done'' @ ''.''"
  by code_simp

text \<open>The example of the claim, \<^verbatim>\<open>I'm done.\<close>, in the two variants that have a finish rule.\<close>

theorem finish_on_whole_word_witness:
  "process_input ''I'm done.'' = (Finish, ''I'm done.'')
   \<and> process_input_old ''I'm done.'' = (Finish, ''I'm done.'')"
  using finish_on_whole_word [of "''I'm done.''" "''i'm ''" "''done''" "''.''"] norm_im_done
  by (simp add: is_word_def finish_keywords_def finish_keywords_old_def)

text \<open>
  C1 as stated fails on \<^verbatim>\<open>process_input\<close> of \<^verbatim>\<open>src/new_flow/flow.py\<close>, which never
  finishes: \<^verbatim>\<open>I'm done.\<close> holds the whole word \<^verbatim>\<open>done\<close> and is classified as continue.
\<close>

theorem finish_new_flow_counterexample:
  "py_strip (py_lower ''I'm done.'') = ''i'm '' @ ''done'' @ ''.''
   \<and> \<not> is_word (last ''i'm '') \<and> \<not> is_word (hd ''.'')
   \<and> process_input_new ''I'm done.'' = (Continue, ''I'm done.'')"
  by code_simp

text \<open>
  C6. When the input, lower-cased and trimmed, holds \<^verbatim>\<open>help\<close> anywhere, the classifier of
  \<^verbatim>\<open>src/new_flow/flow.py\<close> returns the help intent, and the classifiers of \<^verbatim>\<open>src/flow.py\<close>
  and \<^verbatim>\<open>src/old_flow/flow.py\<close> return it unless their finish rule, tested first, matches.
\<close>

theorem help_on_substring:
  assumes norm: "py_strip (py_lower user_input) = p @ ''help'' @ q"
  shows "(\<not> list_ex (\<lambda>keyword. py_in keyword (py_strip (py_lower user_input))) finish_keywords
            \<longrightarrow> process_input user_input = (Help, user_input))
    \<and> process_input_new user_input = (Help, user_input)
    \<and> (\<not> list_ex (\<lambda>keyword. re_search_word keyword (py_strip (py_lower user_input)))
              finish_keywords_old
            \<longrightarrow> process_input_old user_input = (Help, user_input))"
proof -
  have "py_in ''help'' (py_strip (py_lower user_input))"
    unfolding py_in_iff using norm by blast
  then show ?thesis
    by (simp add: process_input_def process_input_new_def process_input_old_def)
qed

lemma norm_is_helpful: "py_strip (py_lower ''This is helpful'') = ''this is '' @ ''help'' @ ''ful''"
  by code_simp

lemma no_finish_is_helpful:
  "\<not> list_ex (\<lambda>keyword. py_in keyword (py_strip (py_lower ''This is helpful''))) finish_keywords"
  "\<not> list_ex (\<lambda>keyword. re_search_word keyword (py_strip (py_lower ''This is helpful'')))
        finish_keywords_old"
  by code_simp+

text \<open>The over-match of the claim: \<^verbatim>\<open>This is helpful\<close> is a request for help everywhere.\<close>

theorem help_on_substring_witness:
  "process_input ''This is helpful'' = (Help, ''This is helpful'')
   \<and> process_input_new ''This is helpful'' = (Help, ''This is helpful'')
   \<and> process_input_old ''This is helpful'' = (Help, ''This is helpful'')"
  using help_on_substring [OF norm_is_helpful] no_finish_is_helpful
  by simp

section \<open>Claims about the editor bridge\<close>

text \<open>
  The extraction in general: when the trimmed output is \<open>a\<close>, the start marker, \<open>b\<close>, the end
  marker, \<open>c\<close>, with no cancellation marker, no start marker beginning inside \<open>a\<close> and no
  end marker beginning before the one shown, the content is \<open>b\<close> trimmed.
\<close>

lemma parse_between_markers:
  assumes out: "py_strip stdout = a @ ''GUI_RESULT_START'' @ b @ ''GUI_RESULT_END'' @ c"
    and nc: "\<not> py_in ''GUI_RESULT_CANCELLED'' (py_strip stdout)"
    and fs: "\<forall>j<length a. \<not> prefix ''GUI_RESULT_START'' (drop j (py_strip stdout))"
    and fe: "\<forall>j<length (a @ ''GUI_RESULT_START'' @ b).
        \<not> prefix ''GUI_RESULT_END'' (drop j (py_strip stdout))"
  shows "parse_gui_result 0 stdout stderr
      = (if py_strip b \<noteq> [] then GuiText (py_strip b) else GuiNoContent)"
proof -
  let ?o = "py_strip stdout"
  have s: "py_find ?o ''GUI_RESULT_START'' = int (length a)"
    using out fs by (intro py_find_at [where c = "b @ ''GUI_RESULT_END'' @ c"]) simp_all
  have e: "py_find ?o ''GUI_RESULT_END'' = int (length (a @ ''GUI_RESULT_START'' @ b))"
    using out fe by (intro py_find_at [where c = c]) simp_all
  have "py_in ''GUI_RESULT_START'' ?o" and "py_in ''GUI_RESULT_END'' ?o"
    unfolding py_in_iff using out by (metis append.assoc)+
  moreover have "py_slice ?o (int (length a) + int (length ''GUI_RESULT_START''))
      (int (length (a @ ''GUI_RESULT_START'' @ b))) = b"
    unfolding out by (rule py_slice_middle)
  ultimately show ?thesis
    using nc s e by (simp add: parse_gui_result_def Let_def)
qed

lemma parse_example:
  "parse_gui_result 0
     (''noise'' @ newline @ ''GUI_RESULT_START'' @ newline @ ''Hello'' @ newline @ ''world''
        @ newline @ ''GUI_RESULT_END'' @ newline @ ''trailer'') stderr
   = GuiText (''Hello'' @ newline @ ''world'')"
  by code_simp

text \<open>
  C4. For the output \<^verbatim>\<open>noise\nGUI_RESULT_START\nHello\nworld\nGUI_RESULT_END\ntrailer\<close> of an
  editor process that exited with code 0, the bridge extracts exactly \<^verbatim>\<open>Hello\nworld\<close>: the
  text between the end of the first start marker and the first end marker, trimmed. With
  the empty line (Enter) at the choice prompt the editing loop returns that text.
\<close>

theorem bridge_extracts_block:
  "parse_gui_result 0
     (''noise'' @ newline @ ''GUI_RESULT_START'' @ newline @ ''Hello'' @ newline @ ''world''
        @ newline @ ''GUI_RESULT_END'' @ newline @ ''trailer'') stderr
   = GuiText (''Hello'' @ newline @ ''world'')
   \<and> gui_loop v
        (\<lambda>n c. Completed 0
           (''noise'' @ newline @ ''GUI_RESULT_START'' @ newline @ ''Hello'' @ newline @ ''world''
              @ newline @ ''GUI_RESULT_END'' @ newline @ ''trailer'') stderr)
        n current_content (Line '''' # rest)
     = (Accepted (''Hello'' @ newline @ ''world''), Suc n, rest,
        [OpeningEditor, Received (''Hello'' @ newline @ ''world''), ChoicePrompt])"
proof -
  have "py_lower (py_strip '''') \<noteq> ''edit''"
    by code_simp
  then show ?thesis
    by (subst gui_loop.simps)
       (simp only: parse_example proc_result.case gui_result.case list.case stdin_event.case
          if_False simp_thms)
qed

lemma marker_shape:
  "''GUI_RESULT_CANCELLED'' \<noteq> [] \<and> \<not> is_space (hd ''GUI_RESULT_CANCELLED'')
   \<and> \<not> is_space (last ''GUI_RESULT_CANCELLED'')"
  by code_simp

lemma cancelled_in_strip:
  assumes "stdout = p @ ''GUI_RESULT_CANCELLED'' @ q"
  shows "py_in ''GUI_RESULT_CANCELLED'' (py_strip stdout)"
proof -
  from assms have "py_in ''GUI_RESULT_CANCELLED'' stdout"
    unfolding py_in_iff by blast
  with marker_shape show ?thesis
    by (intro py_in_strip) simp_all
qed

text \<open>
  C10. When the output of an editor process that exited with code 0 holds
  \<^verbatim>\<open>GUI_RESULT_CANCELLED\<close> anywhere, the bridge reports cancellation and the editing loop
  breaks with nothing accepted. This is so even when the marker is the text that
  \<^verbatim>\<open>StandaloneGUI.submit\<close> wraps in a complete block.
\<close>

theorem cancellation_takes_precedence:
  assumes "stdout = p @ ''GUI_RESULT_CANCELLED'' @ q"
  shows "parse_gui_result 0 stdout stderr = GuiCancelled
    \<and> parse_gui_result 0 (submit_output stdout) stderr = GuiCancelled
    \<and> (gui n current_content = Completed 0 stdout stderr
        \<longrightarrow> gui_loop v gui n current_content stdin
              = (Broke, Suc n, stdin, [OpeningEditor, CancelledByUser]))"
proof -
  have a: "parse_gui_result 0 stdout stderr = GuiCancelled"
    using cancelled_in_strip [OF assms] by (simp add: parse_gui_result_def)
  have "submit_output stdout
      = (''GUI_RESULT_START'' @ newline @ p) @ ''GUI_RESULT_CANCELLED''
          @ (q @ newline @ ''GUI_RESULT_END'' @ newline)"
    using assms by (simp add: submit_output_def)
  from cancelled_in_strip [OF this]
  have b: "parse_gui_result 0 (submit_output stdout) stderr = GuiCancelled"
    by (simp add: parse_gui_result_def)
  from a b show ?thesis
    by (simp add: gui_loop.simps)
qed

text \<open>
  The user submits the text \<^verbatim>\<open>GUI_RESULT_CANCELLED\<close>: the block is complete and is
  discarded.
\<close>

theorem cancellation_takes_precedence_witness:
  "parse_gui_result 0 (submit_output ''GUI_RESULT_CANCELLED'') '''' = GuiCancelled
   \<and> gui_loop New_flow (\<lambda>n c. Completed 0 (submit_output ''GUI_RESULT_CANCELLED'') '''') 0 ''''
         [Line ''go'']
       = (Broke, 1, [Line ''go''], [OpeningEditor, CancelledByUser])"
proof -
  have "submit_output ''GUI_RESULT_CANCELLED''
      = (''GUI_RESULT_START'' @ newline) @ ''GUI_RESULT_CANCELLED''
          @ (newline @ ''GUI_RESULT_END'' @ newline)"
    by (simp add: submit_output_def)
  from cancellation_takes_precedence [OF this,
      where gui = "\<lambda>n c. Completed 0 (submit_output ''GUI_RESULT_CANCELLED'') ''''"
        and stderr = "''''" and n = 0 and current_content = "''''" and v = New_flow
        and stdin = "[Line ''go'']"]
  show ?thesis by simp
qed

text \<open>
  C9. The editor process exited with code 0, its trimmed output holds both block markers,
  and the trimmed slice between them is empty. Then the bridge accepts nothing: it prints
  one notice (the warning that no content was received; the cancellation notice when the
  cancellation marker is there too), the editing loop breaks, and
  \<^verbatim>\<open>get_user_input\<close> goes on with the terminal prompt.
\<close>

theorem empty_block_is_failure:
  assumes s: "py_in ''GUI_RESULT_START'' (py_strip stdout)"
    and e: "py_in ''GUI_RESULT_END'' (py_strip stdout)"
    and c: "py_strip (py_slice (py_strip stdout)
               (py_find (py_strip stdout) ''GUI_RESULT_START''
                  + int (length ''GUI_RESULT_START''))
               (py_find (py_strip stdout) ''GUI_RESULT_END'')) = []"
    and g: "gui n current_content = Completed 0 stdout stderr"
  shows "parse_gui_result 0 stdout stderr
      = (if py_in ''GUI_RESULT_CANCELLED'' (py_strip stdout) then GuiCancelled else GuiNoContent)
    \<and> gui_loop v gui n current_content stdin
      = (Broke, Suc n, stdin,
         [OpeningEditor,
          if py_in ''GUI_RESULT_CANCELLED'' (py_strip stdout) then CancelledByUser
          else NoContentWarning])
    \<and> (current_content = [] \<and> py_strip l \<noteq> [] \<and> py_lower (py_strip l) \<in> set gui_keywords
        \<longrightarrow> prompt_loop_gui v gui sys_bound n (Line l # stdin)
            = (case prompt_loop_gui v gui True (Suc n) stdin of
                 (r, n', rest, ps) \<Rightarrow>
                   (r, n', rest,
                    [Prompt, OpeningEditor,
                     if py_in ''GUI_RESULT_CANCELLED'' (py_strip stdout) then CancelledByUser
                     else NoContentWarning] @ ps)))"
proof -
  have p: "parse_gui_result 0 stdout stderr
      = (if py_in ''GUI_RESULT_CANCELLED'' (py_strip stdout) then GuiCancelled else GuiNoContent)"
    using s e c by (simp add: parse_gui_result_def Let_def)
  have l: "gui_loop v gui n current_content stdin
      = (Broke, Suc n, stdin,
         [OpeningEditor,
          if py_in ''GUI_RESULT_CANCELLED'' (py_strip stdout) then CancelledByUser
          else NoContentWarning])"
    by (subst gui_loop.simps) (simp add: g p)
  from p l show ?thesis
    by (auto simp: Let_def split: prod.splits)
qed

lemma empty_block_example:
  "py_in ''GUI_RESULT_START'' (py_strip (''GUI_RESULT_START'' @ newline @ ''  '' @ newline @ ''GUI_RESULT_END''))"
  "py_in ''GUI_RESULT_END'' (py_strip (''GUI_RESULT_START'' @ newline @ ''  '' @ newline @ ''GUI_RESULT_END''))"
  "py_strip (py_slice (py_strip (''GUI_RESULT_START'' @ newline @ ''  '' @ newline @ ''GUI_RESULT_END''))
      (py_find (py_strip (''GUI_RESULT_START'' @ newline @ ''  '' @ newline @ ''GUI_RESULT_END''))
          ''GUI_RESULT_START'' + int (length ''GUI_RESULT_START''))
      (py_find (py_strip (''GUI_RESULT_START'' @ newline @ ''  '' @ newline @ ''GUI_RESULT_END''))
          ''GUI_RESULT_END'')) = []"
  "\<not> py_in ''GUI_RESULT_CANCELLED''
      (py_strip (''GUI_RESULT_START'' @ newline @ ''  '' @ newline @ ''GUI_RESULT_END''))"
  "py_strip ''gui'' \<noteq> []"
  "py_lower (py_strip ''gui'') \<in> set gui_keywords"
  by code_simp+

text \<open>A block of white space only: the next terminal line is the instruction.\<close>

theorem empty_block_is_failure_witness:
  "parse_gui_result 0 (''GUI_RESULT_START'' @ newline @ ''  '' @ newline @ ''GUI_RESULT_END'') ''''
     = GuiNoContent
   \<and> prompt_loop_gui New_flow
        (\<lambda>n c. Completed 0 (''GUI_RESULT_START'' @ newline @ ''  '' @ newline @ ''GUI_RESULT_END'') '''')
        False 0 [Line ''gui'', Line ''go'']
     = (Returned ''go'', 1, [], [Prompt, OpeningEditor, NoContentWarning, Prompt])"
proof -
  have "py_strip ''go'' = ''go''"
    by code_simp
  then have "prompt_loop_gui New_flow
        (\<lambda>n c. Completed 0 (''GUI_RESULT_START'' @ newline @ ''  '' @ newline @ ''GUI_RESULT_END'') '''')
        True (Suc 0) [Line ''go'']
     = (Returned ''go'', 1, [], [Prompt])"
    by (simp add: gui_keywords_def py_lower_def lower_char_def)
  with empty_block_is_failure [OF empty_block_example(1-3),
      where gui = "\<lambda>n c. Completed 0
          (''GUI_RESULT_START'' @ newline @ ''  '' @ newline @ ''GUI_RESULT_END'') ''''"
        and stderr = "''''" and n = 0 and current_content = "''''" and v = New_flow
        and stdin = "[Line ''go'']" and l = "''gui''" and sys_bound = False]
    empty_block_example(4-6)
  show ?thesis by simp
qed

section \<open>Claims about prompting\<close>

lemma py_strip_finish: "py_strip ''finish'' = ''finish''"
  by code_simp

lemma prompt_loop_nonblank:
  "prompt_loop stdin = (u, rest, ps) \<Longrightarrow> u \<noteq> [] \<and> py_strip u = u"
proof (induction stdin arbitrary: u rest ps)
  case Nil
  then show ?case by (auto simp: py_strip_finish)
next
  case (Cons ev stdin)
  show ?case
  proof (cases ev)
    case Interrupt
    with Cons.prems show ?thesis by (auto simp: py_strip_finish)
  next
    case (Line l)
    show ?thesis
    proof (cases "py_strip l = []")
      case True
      obtain u' rest' ps' where r: "prompt_loop stdin = (u', rest', ps')"
        by (cases "prompt_loop stdin") auto
      with Cons.prems Line True have "u' = u"
        by simp
      with Cons.IH [OF r] show ?thesis by simp
    next
      case False
      with Cons.prems Line show ?thesis by (auto simp: Let_def py_strip_idem)
    qed
  qed
qed

lemma parse_gui_result_text:
  "parse_gui_result returncode stdout stderr = GuiText c \<Longrightarrow> c \<noteq> [] \<and> py_strip c = c"
  by (auto simp: parse_gui_result_def Let_def py_strip_idem split: if_splits)

lemma gui_loop_accepted:
  "gui_loop v gui n c stdin = (Accepted u, n', rest, ps) \<Longrightarrow> u \<noteq> [] \<and> py_strip u = u"
proof (induction v gui n c stdin arbitrary: n' rest ps rule: gui_loop.induct)
  case (1 v gui n current_content stdin)
  from "1.prems" show ?case
    apply (subst (asm) gui_loop.simps)
    apply (auto split: proc_result.splits gui_result.splits list.splits stdin_event.splits
        if_splits prod.splits dest: "1.IH" parse_gui_result_text)
    done
qed

lemma on_stop_nonblank: "on_stop v b = Returned u \<Longrightarrow> u \<noteq> [] \<and> py_strip u = u"
  by (auto dest!: on_stop_Returned simp: py_strip_finish)

lemma prompt_loop_gui_nonblank:
  "prompt_loop_gui v gui b n stdin = (Returned u, n', rest, ps) \<Longrightarrow> u \<noteq> [] \<and> py_strip u = u"
proof (induction v gui b n stdin arbitrary: n' rest ps rule: prompt_loop_gui.induct)
  case (1 v gui sys_bound n)
  then show ?case by (auto dest: on_stop_nonblank)
next
  case (2 v gui sys_bound n rest0)
  then show ?case by (auto dest: on_stop_nonblank)
next
  case (3 v gui sys_bound n l rest0)
  show ?case
  proof (cases "py_strip l = []")
    case True
    obtain r1 n1 rest1 ps1 where r: "prompt_loop_gui v gui sys_bound n rest0 = (r1, n1, rest1, ps1)"
      by (cases "prompt_loop_gui v gui sys_bound n rest0") auto
    with "3.prems" True have "r1 = Returned u"
      by simp
    with "3.IH"(1) [OF refl True] r show ?thesis by fastforce
  next
    case False
    note nonblank = this
    show ?thesis
    proof (cases "py_lower (py_strip l) \<in> set gui_keywords")
      case False
      with "3.prems" nonblank show ?thesis by (auto simp: Let_def py_strip_idem)
    next
      case True
      obtain g n1 rest1 ps1 where g: "gui_loop v gui n [] rest0 = (g, n1, rest1, ps1)"
        by (cases "gui_loop v gui n [] rest0") auto
      show ?thesis
      proof (cases g)
        case (Accepted content)
        with "3.prems" nonblank True g have "content = u"
          by (simp add: Let_def)
        with g Accepted show ?thesis
          by (auto dest: gui_loop_accepted)
      next
        case Interrupted
        with "3.prems" nonblank True g show ?thesis
          by (auto simp: Let_def dest: on_stop_nonblank)
      next
        case Broke
        obtain r2 n2 rest2 ps2
          where r: "prompt_loop_gui v gui True n1 rest1 = (r2, n2, rest2, ps2)"
          by (cases "prompt_loop_gui v gui True n1 rest1") auto
        with "3.prems" nonblank True g Broke have eq: "r2 = Returned u"
          by (simp add: Let_def)
        show ?thesis
          using "3.IH"(2) [of "py_strip l" Broke "(n1, rest1, ps1)" n1 "(rest1, ps1)" rest1 ps1
              n2 rest2 ps2] nonblank True g Broke r eq
          by simp
      qed
    qed
  qed
qed

text \<open>
  C8. Every string that \<^verbatim>\<open>get_user_input\<close> returns, in each of the three files, is
  non-empty and already trimmed, so the classifier never receives an empty or white-space
  input; and a terminal line that is empty after trimming only adds the warning and a new
  prompt: the loop goes on with the rest of the input.
\<close>

theorem prompt_never_returns_blank:
  "(get_user_input stdin = (u, rest, ps) \<longrightarrow> u \<noteq> [] \<and> py_strip u = u)
   \<and> (get_user_input_gui v gui n stdin = (Returned u, n', rest, ps)
        \<longrightarrow> u \<noteq> [] \<and> py_strip u = u)
   \<and> (py_strip l = []
        \<longrightarrow> prompt_loop (Line l # stdin)
              = (case prompt_loop stdin of
                   (u', rest', ps') \<Rightarrow> (u', rest', [Prompt, EmptyWarning] @ ps'))
          \<and> prompt_loop_gui v gui sys_bound n (Line l # stdin)
              = (case prompt_loop_gui v gui sys_bound n stdin of
                   (r, n', rest', ps') \<Rightarrow> (r, n', rest', [Prompt, EmptyWarning] @ ps')))"
proof (intro conjI impI)
  assume "get_user_input stdin = (u, rest, ps)"
  then have "prompt_loop stdin = (u, rest, tl ps)"
    by (auto simp: get_user_input_def split: prod.splits)
  then show "u \<noteq> []" and "py_strip u = u"
    by (auto dest: prompt_loop_nonblank)
next
  assume "get_user_input_gui v gui n stdin = (Returned u, n', rest, ps)"
  then have "prompt_loop_gui v gui False n stdin = (Returned u, n', rest, tl ps)"
    by (auto simp: get_user_input_gui_def split: prod.splits)
  then show "u \<noteq> []" and "py_strip u = u"
    by (auto dest: prompt_loop_gui_nonblank)
qed simp_all

text \<open>A line of spaces is asked again; the next line is returned trimmed.\<close>

theorem prompt_never_returns_blank_witness:
  "get_user_input [Line ''   '', Line '' add a dark mode toggle '']
     = (''add a dark mode toggle'', [], [Options, Prompt, EmptyWarning, Prompt])
   \<and> py_strip ''add a dark mode toggle'' = ''add a dark mode toggle''
   \<and> get_user_input_gui New_flow (\<lambda>n c. LaunchFailed) 0 [Line ''   '', Line '' go '']
     = (Returned ''go'', 0, [], [Options, Prompt, EmptyWarning, Prompt])
   \<and> py_strip ''go'' = ''go''"
proof -
  have a: "get_user_input [Line ''   '', Line '' add a dark mode toggle '']
     = (''add a dark mode toggle'', [], [Options, Prompt, EmptyWarning, Prompt])"
    by code_simp
  have b: "get_user_input_gui New_flow (\<lambda>n c. LaunchFailed) 0 [Line ''   '', Line '' go '']
     = (Returned ''go'', 0, [], [Options, Prompt, EmptyWarning, Prompt])"
    by code_simp
  from prompt_never_returns_blank [where stdin = "[Line ''   '', Line '' add a dark mode toggle '']"
      and u = "''add a dark mode toggle''" and rest = "[]"
      and ps = "[Options, Prompt, EmptyWarning, Prompt]"] a
  have "py_strip ''add a dark mode toggle'' = ''add a dark mode toggle''"
    by simp
  moreover
  from prompt_never_returns_blank [where stdin = "[Line ''   '', Line '' go '']"
      and u = "''go''" and rest = "[]" and n = 0 and n' = 0 and v = New_flow
      and gui = "\<lambda>n c. LaunchFailed"
      and ps = "[Options, Prompt, EmptyWarning, Prompt]"] b
  have "py_strip ''go'' = ''go''"
    by simp
  ultimately show ?thesis
    using a b by simp
qed

section \<open>Claims about the logger\<close>

lemma write_json_printed: "printed (snd (write_json e path j w)) = printed w"
  by (cases "write_fault e path") (simp_all add: write_json_def)

lemma write_json_writes: "writes (snd (write_json e path j w)) = writes w @ [(path, j)]"
  by (cases "write_fault e path") (simp_all add: write_json_def)

lemma write_json_other_files:
  "path' \<noteq> path \<Longrightarrow> files (snd (write_json e path j w)) path' = files w path'"
  by (cases "write_fault e path") (simp_all add: write_json_def)

lemma write_json_result:
  "fst (write_json e path j w) = None \<longleftrightarrow> write_fault e path = NoFault"
  by (cases "write_fault e path") (simp_all add: write_json_def)

lemma write_json_ok:
  "write_fault e path = NoFault \<Longrightarrow>
   write_json e path j w
     = (None, w\<lparr>writes := writes w @ [(path, j)], files := (files w)(path \<mapsto> Doc j)\<rparr>)"
  by (simp add: write_json_def)

lemma save_session_log_returns: "fst (save_session_log e action user_input w) = None"
  by (simp add: save_session_log_def split: prod.splits option.splits)

lemma save_session_log_new_returns: "fst (save_session_log_new e action user_input w) = None"
  by (simp add: save_session_log_new_def Let_def split: prod.splits option.splits)

lemma read_logs_new_world:
  "snd (read_logs_new e w) = w \<or> snd (read_logs_new e w) = say CorruptedLog w"
  by (simp add: read_logs_new_def split: option.splits content.splits)

text \<open>What \<^verbatim>\<open>save_session_log\<close> of \<^verbatim>\<open>src/flow.py\<close> does with a log it cannot parse.\<close>

lemma save_session_log_unreadable:
  assumes "files w (log_file e) = Some Corrupt \<or> files w (log_file e) = Some Blank
      \<or> files w (log_file e) = Some TooDeep"
  shows "save_session_log e action user_input w = (None, say CouldNotSave w)"
  using assms by (auto simp: save_session_log_def save_body_def json_load_def)

text \<open>
  C2, as far as it holds. The log file holds text that \<^verbatim>\<open>json.loads\<close> rejects with a
  \<^verbatim>\<open>JSONDecodeError\<close> or \<^verbatim>\<open>ValueError\<close> (or only white space) and can be read and written.
  In \<^verbatim>\<open>src/new_flow/flow.py\<close>, \<^verbatim>\<open>save_session_log\<close> returns normally, reading the log back
  gives the array of the one new entry, and the only write attempted is that array to the
  log file: the old content is discarded, not merged. In \<^verbatim>\<open>src/flow.py\<close>,
  \<^verbatim>\<open>save_session_log\<close> returns normally too, having printed that the log could not be
  saved and changed nothing else: no write is attempted and the file is as before.
\<close>

theorem corrupt_log_recovery:
  assumes c: "files w (log_file e) = Some Corrupt \<or> files w (log_file e) = Some Blank"
    and r: "\<not> read_fails e (log_file e)"
    and f: "write_fault e (log_file e) = NoFault"
  shows "fst (save_session_log_new e action user_input w) = None
    \<and> json_load e (log_file e) (snd (save_session_log_new e action user_input w))
        = Inr (JArr [log_entry (now e) action user_input])
    \<and> writes (snd (save_session_log_new e action user_input w))
        = writes w @ [(log_file e, JArr [log_entry (now e) action user_input])]
    \<and> save_session_log e action user_input w = (None, say CouldNotSave w)"
proof -
  have flow: "save_session_log e action user_input w = (None, say CouldNotSave w)"
    using c by (intro save_session_log_unreadable) auto
  from c show ?thesis
  proof
    assume "files w (log_file e) = Some Corrupt"
    with r f flow show ?thesis
      by (simp add: save_session_log_new_def save_body_new_def read_logs_new_def list_append_def
          write_json_def say_def json_load_def Let_def)
  next
    assume "files w (log_file e) = Some Blank"
    with r f flow show ?thesis
      by (simp add: save_session_log_new_def save_body_new_def read_logs_new_def list_append_def
          write_json_def say_def json_load_def Let_def)
  qed
qed

text \<open>A corrupt log in the plain environment, in both files.\<close>

theorem corrupt_log_recovery_witness:
  "json_load plain_env ''session_log.json''
     (snd (save_session_log_new plain_env Continue ''add a dark mode toggle''
             (world_with (Some Corrupt))))
   = Inr (JArr [log_entry ''2025-01-01T10:00:00'' Continue ''add a dark mode toggle''])
   \<and> save_session_log plain_env Continue ''add a dark mode toggle'' (world_with (Some Corrupt))
     = (None, say CouldNotSave (world_with (Some Corrupt)))"
  using corrupt_log_recovery [of "world_with (Some Corrupt)" plain_env Continue
      "''add a dark mode toggle''"]
  by (simp add: plain_env_def world_with_def)

text \<open>
  C2 as stated fails on \<^verbatim>\<open>save_session_log\<close> of \<^verbatim>\<open>src/flow.py\<close>: \<^verbatim>\<open>json.load\<close> raises, the
  handler prints that the log could not be saved, nothing is written, and the log file
  still cannot be read back.
\<close>

theorem corrupt_log_flow_counterexample:
  "files (world_with (Some Corrupt)) (log_file plain_env) = Some Corrupt
   \<and> \<not> read_fails plain_env (log_file plain_env)
   \<and> write_fault plain_env (log_file plain_env) = NoFault
   \<and> save_session_log plain_env Continue ''add a dark mode toggle'' (world_with (Some Corrupt))
     = (None, (world_with (Some Corrupt))\<lparr>printed := [CouldNotSave]\<rparr>)
   \<and> json_load plain_env (log_file plain_env)
        (snd (save_session_log plain_env Continue ''add a dark mode toggle''
                (world_with (Some Corrupt))))
     = Inl JSONDecodeError"
  by (simp add: plain_env_def world_with_def save_session_log_def save_body_def json_load_def
      say_def)

lemma save_body_writes:
  "\<exists>ws. writes (snd (save_body e entry w)) = writes w @ ws
     \<and> (ws = [] \<or> (\<exists>j. ws = [(log_file e, j)]))"
proof (cases "fst (save_body e entry w) = None \<or> (\<exists>j. snd (save_body e entry w)
    = snd (write_json e (log_file e) j w))")
  case True
  then show ?thesis
  proof
    assume "fst (save_body e entry w) = None"
    then obtain j where "save_body e entry w = write_json e (log_file e) j w"
      by (auto simp: save_body_def split: sum.splits if_splits)
    then show ?thesis by (simp add: write_json_writes)
  next
    assume "\<exists>j. snd (save_body e entry w) = snd (write_json e (log_file e) j w)"
    then show ?thesis by (auto simp: write_json_writes)
  qed
next
  case False
  then have "snd (save_body e entry w) = w"
    by (auto simp: save_body_def split: sum.splits if_splits)
  then show ?thesis by simp
qed

lemma save_session_log_writes:
  "\<exists>ws. writes (snd (save_session_log e action user_input w)) = writes w @ ws
     \<and> (ws = [] \<or> (\<exists>j. ws = [(log_file e, j)]))"
  using save_body_writes [of e "log_entry (now e) action user_input" w]
  by (auto simp: save_session_log_def say_def split: prod.splits option.splits)

lemma save_body_other_files:
  "path \<noteq> log_file e \<Longrightarrow> files (snd (save_body e entry w)) path = files w path"
  by (auto simp: save_body_def write_json_other_files split: sum.splits)

lemma save_session_log_other_files:
  "path \<noteq> log_file e
    \<Longrightarrow> files (snd (save_session_log e action user_input w)) path = files w path"
  using save_body_other_files [of path e "log_entry (now e) action user_input" w]
  by (auto simp: save_session_log_def say_def split: prod.splits option.splits)

lemma save_session_log_write_fails:
  assumes "fst (read_logs_new e w) = Inr (JArr xs)"
    and "write_fault e (log_file e) \<noteq> NoFault"
  shows "save_session_log e action user_input w
      = (None, say CouldNotSave
           (if files w (log_file e) = Some Blank \<or> files w (log_file e) = Some Corrupt then w
            else snd (write_json e (log_file e)
                        (JArr (xs @ [log_entry (now e) action user_input])) w)))"
proof (cases "files w (log_file e)")
  case None
  with assms have "xs = []"
    by (simp add: read_logs_new_def)
  with None assms(2) show ?thesis
    by (cases "write_fault e (log_file e)")
       (simp_all add: save_session_log_def save_body_def list_append_def write_json_def)
next
  case (Some c)
  with assms(1) have rf: "\<not> read_fails e (log_file e)"
    by (auto simp: read_logs_new_def split: if_splits)
  show ?thesis
  proof (cases c)
    case Blank
    with Some show ?thesis by (simp add: save_session_log_unreadable)
  next
    case Corrupt
    with Some show ?thesis by (simp add: save_session_log_unreadable)
  next
    case TooDeep
    with Some assms(1) rf show ?thesis by (simp add: read_logs_new_def)
  next
    case (Doc j)
    with Some assms(1) rf have "j = JArr xs"
      by (simp add: read_logs_new_def)
    with Some Doc rf assms(2) show ?thesis
      by (cases "write_fault e (log_file e)")
         (simp_all add: save_session_log_def save_body_def json_load_def list_append_def
            write_json_def)
  qed
qed

text \<open>
  C3, as far as it holds. In \<^verbatim>\<open>src/new_flow/flow.py\<close>, when the logger has read the array
  \<open>xs\<close> (empty for an absent, blank or corrupt log) and the write of the log file fails,
  \<^verbatim>\<open>save_session_log\<close> returns normally and has attempted exactly two writes: the extended
  array to the log file, then the array of the new entry alone to the log file's path with
  \<^verbatim>\<open>.backup\<close> appended; when that write succeeds the backup file holds that array, and
  when it fails the error is swallowed too. \<^verbatim>\<open>save_session_log\<close> of \<^verbatim>\<open>src/flow.py\<close> and
  \<^verbatim>\<open>src/old_flow/flow.py\<close> (one text) attempts no fallback: in the same situation it is
  left with the world of the failed write (or the world as it was, when the log was blank
  or corrupt and it never came to write) and only prints; and whatever the situation, it
  attempts at most one write, to the log file, and no other file changes. In no situation
  does \<^verbatim>\<open>save_session_log\<close> of any of the three files raise.
\<close>

theorem backup_on_write_failure:
  assumes r: "fst (read_logs_new e w) = Inr (JArr xs)"
    and f: "write_fault e (log_file e) \<noteq> NoFault"
  shows "fst (save_session_log_new e action user_input w) = None
    \<and> writes (snd (save_session_log_new e action user_input w))
        = writes w @ [(log_file e, JArr (xs @ [log_entry (now e) action user_input])),
                      (log_file e @ ''.backup'', JArr [log_entry (now e) action user_input])]
    \<and> (write_fault e (log_file e @ ''.backup'') = NoFault
        \<longrightarrow> files (snd (save_session_log_new e action user_input w)) (log_file e @ ''.backup'')
            = Some (Doc (JArr [log_entry (now e) action user_input])))
    \<and> fst (save_session_log e action user_input w) = None
    \<and> save_session_log e action user_input w
        = (None, say CouldNotSave
             (if files w (log_file e) = Some Blank \<or> files w (log_file e) = Some Corrupt then w
              else snd (write_json e (log_file e)
                          (JArr (xs @ [log_entry (now e) action user_input])) w)))
    \<and> (\<forall>e' w'. \<exists>ws. writes (snd (save_session_log e' action user_input w')) = writes w' @ ws
          \<and> (ws = [] \<or> (\<exists>j. ws = [(log_file e', j)])))
    \<and> (\<forall>e' w' path. path = log_file e'
          \<or> files (snd (save_session_log e' action user_input w')) path = files w' path)
    \<and> (\<forall>e' w'. fst (save_session_log_new e' action user_input w') = None
          \<and> fst (save_session_log e' action user_input w') = None)"
proof -
  obtain w1 where w1: "read_logs_new e w = (Inr (JArr xs), w1)"
    using r by (cases "read_logs_new e w") auto
  with read_logs_new_world [of e w] have "writes w1 = writes w"
    by (auto simp: say_def)
  with w1 have new: "fst (save_session_log_new e action user_input w) = None
    \<and> writes (snd (save_session_log_new e action user_input w))
        = writes w @ [(log_file e, JArr (xs @ [log_entry (now e) action user_input])),
                      (log_file e @ ''.backup'', JArr [log_entry (now e) action user_input])]
    \<and> (write_fault e (log_file e @ ''.backup'') = NoFault
        \<longrightarrow> files (snd (save_session_log_new e action user_input w)) (log_file e @ ''.backup'')
            = Some (Doc (JArr [log_entry (now e) action user_input])))"
    using f
    by (cases "write_fault e (log_file e)"; cases "write_fault e (log_file e @ ''.backup'')")
       (simp_all add: save_session_log_new_def save_body_new_def list_append_def write_json_def
          say_def Let_def)
  have others: "\<forall>e' w' path. path = log_file e'
          \<or> files (snd (save_session_log e' action user_input w')) path = files w' path"
    using save_session_log_other_files by blast
  have raises: "fst (save_session_log e action user_input w) = None"
    by (rule save_session_log_returns)
  have prints: "save_session_log e action user_input w
      = (None, say CouldNotSave
           (if files w (log_file e) = Some Blank \<or> files w (log_file e) = Some Corrupt then w
            else snd (write_json e (log_file e)
                        (JArr (xs @ [log_entry (now e) action user_input])) w)))"
    by (rule save_session_log_write_fails [OF r f])
  have one: "\<forall>e' w'. \<exists>ws. writes (snd (save_session_log e' action user_input w')) = writes w' @ ws
          \<and> (ws = [] \<or> (\<exists>j. ws = [(log_file e', j)]))"
    using save_session_log_writes by blast
  have never: "\<forall>e' w'. fst (save_session_log_new e' action user_input w') = None
          \<and> fst (save_session_log e' action user_input w') = None"
    by (simp add: save_session_log_returns save_session_log_new_returns)
  from new raises prints one others never show ?thesis
    by blast
qed

text \<open>The log file cannot be opened for writing: the entry goes to the backup file.\<close>

theorem backup_on_write_failure_witness:
  "save_session_log_new primary_unwritable_env Continue ''add a dark mode toggle'' (world_with None)
   = (None,
      \<lparr>files = (files (world_with None))(''session_log.json.backup'' \<mapsto>
           Doc (JArr [log_entry ''2025-01-01T10:00:00'' Continue ''add a dark mode toggle''])),
       writes =
         [(''session_log.json'',
           JArr [log_entry ''2025-01-01T10:00:00'' Continue ''add a dark mode toggle'']),
          (''session_log.json.backup'',
           JArr [log_entry ''2025-01-01T10:00:00'' Continue ''add a dark mode toggle''])],
       printed = [CouldNotSave, BackupSaved]\<rparr>)"
proof -
  have r: "fst (read_logs_new primary_unwritable_env (world_with None)) = Inr (JArr [])"
    by (simp add: read_logs_new_def primary_unwritable_env_def plain_env_def world_with_def)
  have f: "write_fault primary_unwritable_env (log_file primary_unwritable_env) \<noteq> NoFault"
    by (simp add: primary_unwritable_env_def plain_env_def)
  from backup_on_write_failure [OF r f, of Continue "''add a dark mode toggle''"]
  have "writes (snd (save_session_log_new primary_unwritable_env Continue
            ''add a dark mode toggle'' (world_with None)))
      = [(''session_log.json'',
           JArr [log_entry ''2025-01-01T10:00:00'' Continue ''add a dark mode toggle'']),
          (''session_log.json.backup'',
           JArr [log_entry ''2025-01-01T10:00:00'' Continue ''add a dark mode toggle''])]"
    by (simp add: primary_unwritable_env_def plain_env_def world_with_def)
  moreover have "save_session_log_new primary_unwritable_env Continue ''add a dark mode toggle''
        (world_with None)
      = (None,
         \<lparr>files = (files (world_with None))(''session_log.json.backup'' \<mapsto>
              Doc (JArr [log_entry ''2025-01-01T10:00:00'' Continue ''add a dark mode toggle''])),
          writes = writes (snd (save_session_log_new primary_unwritable_env Continue
            ''add a dark mode toggle'' (world_with None))),
          printed = [CouldNotSave, BackupSaved]\<rparr>)"
    by (simp add: save_session_log_new_def save_body_new_def read_logs_new_def list_append_def
        write_json_def say_def Let_def primary_unwritable_env_def plain_env_def world_with_def)
  ultimately show ?thesis by simp
qed

text \<open>
  C3 as stated fails on \<^verbatim>\<open>save_session_log\<close> of \<^verbatim>\<open>src/flow.py\<close> (and
  \<^verbatim>\<open>src/old_flow/flow.py\<close>, the same text): when the write of the log file fails, the
  handler only prints; no second write is attempted and no backup file appears.
\<close>

theorem backup_flow_counterexample:
  "write_fault primary_unwritable_env (log_file primary_unwritable_env) = OpenFails
   \<and> save_session_log primary_unwritable_env Continue ''add a dark mode toggle'' (world_with None)
     = (None,
        \<lparr>files = files (world_with None),
         writes =
           [(''session_log.json'',
             JArr [log_entry ''2025-01-01T10:00:00'' Continue ''add a dark mode toggle''])],
         printed = [CouldNotSave]\<rparr>)
   \<and> files (world_with None) ''session_log.json.backup'' = None"
  by (simp add: save_session_log_def save_body_def list_append_def write_json_def say_def
      primary_unwritable_env_def plain_env_def world_with_def)

lemma save_session_log_appends:
  assumes "files w (log_file e) = Some (Doc (JArr xs)) \<or> (files w (log_file e) = None \<and> xs = [])"
    and "\<not> read_fails e (log_file e)" and "write_fault e (log_file e) = NoFault"
  shows "files (snd (save_session_log e action user_input w))
      = (files w)(log_file e \<mapsto> Doc (JArr (xs @ [log_entry (now e) action user_input])))"
  using assms
  by (auto simp: save_session_log_def save_body_def json_load_def list_append_def write_json_def)

lemma save_session_log_new_appends:
  assumes "files w (log_file e) = Some (Doc (JArr xs))
      \<or> ((files w (log_file e) = None \<or> files w (log_file e) = Some Blank) \<and> xs = [])"
    and "\<not> read_fails e (log_file e)" and "write_fault e (log_file e) = NoFault"
  shows "files (snd (save_session_log_new e action user_input w))
      = (files w)(log_file e \<mapsto> Doc (JArr (xs @ [log_entry (now e) action user_input])))"
  using assms
  by (auto simp: save_session_log_new_def save_body_new_def read_logs_new_def list_append_def
      write_json_def Let_def)

lemma appends_in_order:
  fixes save :: "env \<Rightarrow> action \<Rightarrow> string \<Rightarrow> world \<Rightarrow> exn option \<times> world"
  assumes step: "\<And>w xs t a u. files w (log_file e) = Some (Doc (JArr xs))
      \<Longrightarrow> files (snd (save (e\<lparr>now := t\<rparr>) a u w)) (log_file e)
          = Some (Doc (JArr (xs @ [log_entry t a u])))"
  shows "files w (log_file e) = Some (Doc (JArr xs))
    \<Longrightarrow> files (foldl (\<lambda>w (t, a, u). snd (save (e\<lparr>now := t\<rparr>) a u w)) w es) (log_file e)
        = Some (Doc (JArr (xs @ map (\<lambda>(t, a, u). log_entry t a u) es)))"
proof (induction es arbitrary: w xs)
  case Nil
  then show ?case by simp
next
  case (Cons x es)
  obtain t a u where x: "x = (t, a, u)"
    by (cases x) auto
  from step [OF Cons.prems, of t a u]
  have "files (snd (save (e\<lparr>now := t\<rparr>) a u w)) (log_file e)
      = Some (Doc (JArr (xs @ [log_entry t a u])))" .
  from Cons.IH [OF this] x show ?case by simp
qed

lemma blank_log_stays:
  "files w (log_file e) = Some Blank
    \<Longrightarrow> files (foldl (\<lambda>w (t, a, u). snd (save_session_log (e\<lparr>now := t\<rparr>) a u w)) w es)
        = files w"
proof (induction es arbitrary: w)
  case Nil
  then show ?case by simp
next
  case (Cons x es)
  obtain t a u where x: "x = (t, a, u)"
    by (cases x) auto
  from Cons.prems
  have s: "save_session_log (e\<lparr>now := t\<rparr>) a u w = (None, say CouldNotSave w)"
    by (intro save_session_log_unreadable) simp
  have "files (say CouldNotSave w) (log_file e) = Some Blank"
    using Cons.prems by (simp add: say_def)
  from Cons.IH [OF this] s x show ?case
    by (simp add: say_def)
qed

lemma log_grows:
  assumes rf: "\<not> read_fails e (log_file e)" and wf: "write_fault e (log_file e) = NoFault"
    and start: "files w (log_file e) = Some (Doc (JArr xs))"
  shows "files (foldl (\<lambda>w (t, a, u). snd (save_session_log (e\<lparr>now := t\<rparr>) a u w)) w es)
        (log_file e)
      = Some (Doc (JArr (xs @ map (\<lambda>(t, a, u). log_entry t a u) es)))"
    and "files (foldl (\<lambda>w (t, a, u). snd (save_session_log_new (e\<lparr>now := t\<rparr>) a u w)) w es)
        (log_file e)
      = Some (Doc (JArr (xs @ map (\<lambda>(t, a, u). log_entry t a u) es)))"
proof -
  show "files (foldl (\<lambda>w (t, a, u). snd (save_session_log (e\<lparr>now := t\<rparr>) a u w)) w es)
        (log_file e)
      = Some (Doc (JArr (xs @ map (\<lambda>(t, a, u). log_entry t a u) es)))"
  proof (rule appends_in_order [OF _ start])
    fix w' :: world and xs' t' a' u'
    assume "files w' (log_file e) = Some (Doc (JArr xs'))"
    then show "files (snd (save_session_log (e\<lparr>now := t'\<rparr>) a' u' w')) (log_file e)
        = Some (Doc (JArr (xs' @ [log_entry t' a' u'])))"
      using save_session_log_appends [of w' "e\<lparr>now := t'\<rparr>" xs' a' u'] rf wf by simp
  qed
  show "files (foldl (\<lambda>w (t, a, u). snd (save_session_log_new (e\<lparr>now := t\<rparr>) a u w)) w es)
        (log_file e)
      = Some (Doc (JArr (xs @ map (\<lambda>(t, a, u). log_entry t a u) es)))"
  proof (rule appends_in_order [OF _ start])
    fix w' :: world and xs' t' a' u'
    assume "files w' (log_file e) = Some (Doc (JArr xs'))"
    then show "files (snd (save_session_log_new (e\<lparr>now := t'\<rparr>) a' u' w')) (log_file e)
        = Some (Doc (JArr (xs' @ [log_entry t' a' u'])))"
      using save_session_log_new_appends [of w' "e\<lparr>now := t'\<rparr>" xs' a' u'] rf wf by simp
  qed
qed

text \<open>
  C5, as far as it holds. The log file can be read and written. When it is absent or holds
  the empty array (in \<^verbatim>\<open>src/new_flow/flow.py\<close> it may also be a blank file, of no bytes or
  of white space), then after \<^verbatim>\<open>save_session_log\<close> has run for each of the entries
  \<open>x # es\<close> in order, each run with its own time stamp, reading the log back gives exactly
  the array of these entries in that order; and when it holds an array \<open>xs\<close>, reading back
  after the runs for \<open>es\<close> gives \<open>xs\<close> followed by these entries in that order: entries are
  only added at the end. This holds for \<^verbatim>\<open>src/flow.py\<close> and for \<^verbatim>\<open>src/new_flow/flow.py\<close>.
  When the log is a blank file, the runs of \<^verbatim>\<open>save_session_log\<close> of \<^verbatim>\<open>src/flow.py\<close> leave
  every file as it was, and reading the log back raises.
\<close>

theorem log_round_trip:
  assumes rf: "\<not> read_fails e (log_file e)"
    and wf: "write_fault e (log_file e) = NoFault"
  shows "(files w (log_file e) = None \<or> files w (log_file e) = Some (Doc (JArr []))
      \<longrightarrow> json_load e (log_file e)
            (foldl (\<lambda>w (t, a, u). snd (save_session_log (e\<lparr>now := t\<rparr>) a u w)) w (x # es))
          = Inr (JArr (map (\<lambda>(t, a, u). log_entry t a u) (x # es))))
    \<and> (files w (log_file e) = None \<or> files w (log_file e) = Some (Doc (JArr []))
        \<or> files w (log_file e) = Some Blank
      \<longrightarrow> json_load e (log_file e)
            (foldl (\<lambda>w (t, a, u). snd (save_session_log_new (e\<lparr>now := t\<rparr>) a u w)) w (x # es))
          = Inr (JArr (map (\<lambda>(t, a, u). log_entry t a u) (x # es))))
    \<and> (files w (log_file e) = Some (Doc (JArr xs))
      \<longrightarrow> json_load e (log_file e)
            (foldl (\<lambda>w (t, a, u). snd (save_session_log (e\<lparr>now := t\<rparr>) a u w)) w es)
          = Inr (JArr (xs @ map (\<lambda>(t, a, u). log_entry t a u) es))
        \<and> json_load e (log_file e)
            (foldl (\<lambda>w (t, a, u). snd (save_session_log_new (e\<lparr>now := t\<rparr>) a u w)) w es)
          = Inr (JArr (xs @ map (\<lambda>(t, a, u). log_entry t a u) es)))
    \<and> (files w (log_file e) = Some Blank
      \<longrightarrow> files (foldl (\<lambda>w (t, a, u). snd (save_session_log (e\<lparr>now := t\<rparr>) a u w)) w (x # es))
          = files w
        \<and> json_load e (log_file e)
            (foldl (\<lambda>w (t, a, u). snd (save_session_log (e\<lparr>now := t\<rparr>) a u w)) w (x # es))
          = Inl JSONDecodeError)"
proof (intro conjI impI)
  obtain t a u where x: "x = (t, a, u)"
    by (cases x) auto
  {
    assume start: "files w (log_file e) = None \<or> files w (log_file e) = Some (Doc (JArr []))"
    have first: "files (snd (save_session_log (e\<lparr>now := t\<rparr>) a u w)) (log_file e)
        = Some (Doc (JArr ([] @ [log_entry t a u])))"
      using save_session_log_appends [of w "e\<lparr>now := t\<rparr>" "[]" a u] rf wf start by auto
    from log_grows(1) [OF rf wf first, of es]
    show "json_load e (log_file e)
          (foldl (\<lambda>w (t, a, u). snd (save_session_log (e\<lparr>now := t\<rparr>) a u w)) w (x # es))
        = Inr (JArr (map (\<lambda>(t, a, u). log_entry t a u) (x # es)))"
      using rf x by (simp add: json_load_def)
  }
  {
    assume start: "files w (log_file e) = None \<or> files w (log_file e) = Some (Doc (JArr []))
        \<or> files w (log_file e) = Some Blank"
    have first: "files (snd (save_session_log_new (e\<lparr>now := t\<rparr>) a u w)) (log_file e)
        = Some (Doc (JArr ([] @ [log_entry t a u])))"
      using save_session_log_new_appends [of w "e\<lparr>now := t\<rparr>" "[]" a u] rf wf start by auto
    from log_grows(2) [OF rf wf first, of es]
    show "json_load e (log_file e)
          (foldl (\<lambda>w (t, a, u). snd (save_session_log_new (e\<lparr>now := t\<rparr>) a u w)) w (x # es))
        = Inr (JArr (map (\<lambda>(t, a, u). log_entry t a u) (x # es)))"
      using rf x by (simp add: json_load_def)
  }
  {
    assume start: "files w (log_file e) = Some (Doc (JArr xs))"
    from log_grows(1) [OF rf wf start, of es]
    show "json_load e (log_file e)
          (foldl (\<lambda>w (t, a, u). snd (save_session_log (e\<lparr>now := t\<rparr>) a u w)) w es)
        = Inr (JArr (xs @ map (\<lambda>(t, a, u). log_entry t a u) es))"
      using rf by (simp add: json_load_def)
    from log_grows(2) [OF rf wf start, of es]
    show "json_load e (log_file e)
          (foldl (\<lambda>w (t, a, u). snd (save_session_log_new (e\<lparr>now := t\<rparr>) a u w)) w es)
        = Inr (JArr (xs @ map (\<lambda>(t, a, u). log_entry t a u) es))"
      using rf by (simp add: json_load_def)
  }
  {
    assume blank: "files w (log_file e) = Some Blank"
    from blank_log_stays [OF blank, of "x # es"]
    show same: "files (foldl (\<lambda>w (t, a, u). snd (save_session_log (e\<lparr>now := t\<rparr>) a u w)) w
          (x # es)) = files w" .
    show "json_load e (log_file e)
          (foldl (\<lambda>w (t, a, u). snd (save_session_log (e\<lparr>now := t\<rparr>) a u w)) w (x # es))
        = Inl JSONDecodeError"
      using rf blank by (simp only: json_load_def same) simp
  }
qed

text \<open>Three entries appended to an absent log, in both files.\<close>

theorem log_round_trip_witness:
  "json_load plain_env ''session_log.json''
     (foldl (\<lambda>w (t, a, u). snd (save_session_log (plain_env\<lparr>now := t\<rparr>) a u w)) (world_with None)
        [(''t1'', Continue, ''add a dark mode toggle''), (''t2'', Continue, ''fix the layout''),
         (''t3'', Finish, ''done'')])
   = Inr (JArr [log_entry ''t1'' Continue ''add a dark mode toggle'',
                log_entry ''t2'' Continue ''fix the layout'', log_entry ''t3'' Finish ''done''])
   \<and> json_load plain_env ''session_log.json''
     (foldl (\<lambda>w (t, a, u). snd (save_session_log_new (plain_env\<lparr>now := t\<rparr>) a u w))
        (world_with None)
        [(''t1'', Continue, ''add a dark mode toggle''), (''t2'', Continue, ''fix the layout''),
         (''t3'', Finish, ''done'')])
   = Inr (JArr [log_entry ''t1'' Continue ''add a dark mode toggle'',
                log_entry ''t2'' Continue ''fix the layout'', log_entry ''t3'' Finish ''done''])"
proof -
  have "log_file plain_env = ''session_log.json''"
    and "\<not> read_fails plain_env (log_file plain_env)"
    and "write_fault plain_env (log_file plain_env) = NoFault"
    and "files (world_with None) (log_file plain_env) = None"
    by (simp_all add: plain_env_def world_with_def)
  with log_round_trip [of plain_env "world_with None"
      "(''t1'', Continue, ''add a dark mode toggle'')"
      "[(''t2'', Continue, ''fix the layout''), (''t3'', Finish, ''done'')]"]
  show ?thesis by simp
qed

text \<open>
  C5 as stated fails on \<^verbatim>\<open>save_session_log\<close> of \<^verbatim>\<open>src/flow.py\<close> when the log file is
  empty in the sense of holding no bytes: each of the three appends only prints, the file
  stays empty, and reading it back raises instead of giving the three entries.
\<close>

theorem log_round_trip_flow_counterexample:
  "files (world_with (Some Blank)) (log_file plain_env) = Some Blank
   \<and> \<not> read_fails plain_env (log_file plain_env)
   \<and> write_fault plain_env (log_file plain_env) = NoFault
   \<and> foldl (\<lambda>w (t, a, u). snd (save_session_log (plain_env\<lparr>now := t\<rparr>) a u w))
        (world_with (Some Blank))
        [(''t1'', Continue, ''add a dark mode toggle''), (''t2'', Continue, ''fix the layout''),
         (''t3'', Finish, ''done'')]
     = (world_with (Some Blank))\<lparr>printed := [CouldNotSave, CouldNotSave, CouldNotSave]\<rparr>
   \<and> json_load plain_env (log_file plain_env)
        (foldl (\<lambda>w (t, a, u). snd (save_session_log (plain_env\<lparr>now := t\<rparr>) a u w))
           (world_with (Some Blank))
           [(''t1'', Continue, ''add a dark mode toggle''), (''t2'', Continue, ''fix the layout''),
            (''t3'', Finish, ''done'')])
     = Inl JSONDecodeError"
  by (simp add: plain_env_def world_with_def save_session_log_def save_body_def json_load_def
      say_def)

section \<open>Claims about the session loop\<close>

lemma prompt_loop_prints:
  "prompt_loop stdin = (u, rest, ps) \<Longrightarrow> filter is_response_block ps = []"
proof (induction stdin arbitrary: u rest ps)
  case Nil
  then show ?case by auto
next
  case (Cons ev stdin)
  show ?case
  proof (cases ev)
    case Interrupt
    with Cons.prems show ?thesis by auto
  next
    case (Line l)
    show ?thesis
    proof (cases "py_strip l = []")
      case True
      obtain u' rest' ps' where r: "prompt_loop stdin = (u', rest', ps')"
        by (cases "prompt_loop stdin") auto
      with Cons.prems Line True have "ps = [Prompt, EmptyWarning] @ ps'"
        by simp
      with Cons.IH [OF r] show ?thesis by simp
    next
      case False
      with Cons.prems Line show ?thesis by (auto simp: Let_def)
    qed
  qed
qed

lemma gui_loop_prints:
  "gui_loop v gui n c stdin = (r, n', rest, ps) \<Longrightarrow> filter is_response_block ps = []"
proof (induction v gui n c stdin arbitrary: r n' rest ps rule: gui_loop.induct)
  case (1 v gui n current_content stdin)
  from "1.prems" show ?case
    apply (subst (asm) gui_loop.simps)
    apply (auto split: proc_result.splits gui_result.splits list.splits stdin_event.splits
        if_splits prod.splits variant.splits dest: "1.IH")
    done
qed

lemma prompt_loop_gui_prints:
  "prompt_loop_gui v gui b n stdin = (r, n', rest, ps) \<Longrightarrow> filter is_response_block ps = []"
proof (induction v gui b n stdin arbitrary: r n' rest ps rule: prompt_loop_gui.induct)
  case (1 v gui sys_bound n)
  then show ?case by auto
next
  case (2 v gui sys_bound n rest0)
  then show ?case by auto
next
  case (3 v gui sys_bound n l rest0)
  show ?case
  proof (cases "py_strip l = []")
    case True
    obtain r1 n1 rest1 ps1 where r: "prompt_loop_gui v gui sys_bound n rest0 = (r1, n1, rest1, ps1)"
      by (cases "prompt_loop_gui v gui sys_bound n rest0") auto
    with "3.prems" True have "ps = [Prompt, EmptyWarning] @ ps1"
      by simp
    with "3.IH"(1) [OF refl True r] show ?thesis by simp
  next
    case False
    note nonblank = this
    show ?thesis
    proof (cases "py_lower (py_strip l) \<in> set gui_keywords")
      case False
      with "3.prems" nonblank show ?thesis by (auto simp: Let_def)
    next
      case True
      obtain g n1 rest1 ps1 where g: "gui_loop v gui n [] rest0 = (g, n1, rest1, ps1)"
        by (cases "gui_loop v gui n [] rest0") auto
      from gui_loop_prints [OF g] have ps1: "filter is_response_block ps1 = []" .
      show ?thesis
      proof (cases g)
        case (Accepted content)
        with "3.prems" nonblank True g ps1 show ?thesis
          by (auto simp: Let_def)
      next
        case Interrupted
        with "3.prems" nonblank True g ps1 show ?thesis
          by (auto simp: Let_def)
      next
        case Broke
        obtain r2 n2 rest2 ps2
          where r: "prompt_loop_gui v gui True n1 rest1 = (r2, n2, rest2, ps2)"
          by (cases "prompt_loop_gui v gui True n1 rest1") auto
        with "3.prems" nonblank True g Broke have eq: "ps = Prompt # ps1 @ ps2"
          by (simp add: Let_def)
        have "filter is_response_block ps2 = []"
          using "3.IH"(2) [of "py_strip l" Broke "(n1, rest1, ps1)" n1 "(rest1, ps1)" rest1 ps1
              r2 n2 rest2 ps2] nonblank True g Broke r
          by simp
        with eq ps1 show ?thesis by simp
      qed
    qed
  qed
qed

lemma save_body_printed: "printed (snd (save_body e entry w)) = printed w"
  by (auto simp: save_body_def write_json_printed split: sum.splits)

lemma save_session_log_prints:
  "filter is_response_block (printed (snd (save_session_log e action user_input w)))
   = filter is_response_block (printed w)"
  using save_body_printed [of e "log_entry (now e) action user_input" w]
  by (auto simp: save_session_log_def say_def split: prod.splits option.splits)

lemma save_body_new_prints:
  "filter is_response_block (printed (snd (save_body_new e entry w)))
   = filter is_response_block (printed w)"
proof -
  from read_logs_new_world [of e w]
  have "filter is_response_block (printed (snd (read_logs_new e w)))
      = filter is_response_block (printed w)"
    by (auto simp: say_def)
  then show ?thesis
    by (auto simp: save_body_new_def write_json_printed split: prod.splits sum.splits)
qed

lemma save_session_log_new_prints:
  "filter is_response_block (printed (snd (save_session_log_new e action user_input w)))
   = filter is_response_block (printed w)"
proof -
  let ?entry = "log_entry (now e) action user_input"
  obtain x w1 where b: "save_body_new e ?entry w = (x, w1)"
    by (cases "save_body_new e ?entry w") auto
  with save_body_new_prints [of e ?entry w]
  have w1: "filter is_response_block (printed w1) = filter is_response_block (printed w)"
    by simp
  obtain y w2 where k: "write_json e (log_file e @ ''.backup'') (JArr [?entry])
      (say CouldNotSave w1) = (y, w2)"
    by (cases "write_json e (log_file e @ ''.backup'') (JArr [?entry]) (say CouldNotSave w1)")
       auto
  with write_json_printed [of e "log_file e @ ''.backup''" "JArr [?entry]" "say CouldNotSave w1"]
  have "printed w2 = printed w1 @ [CouldNotSave]"
    by (simp add: say_def)
  with w1 b k show ?thesis
    by (cases x; cases y) (simp_all add: save_session_log_new_def Let_def say_def)
qed

lemma process_input_keeps: "snd (process_input u) = u"
  by (simp add: process_input_def Let_def)

lemma process_input_of_keeps: "snd (process_input_of v u) = u"
  by (cases v) (simp_all add: process_input_old_def process_input_new_def Let_def)

lemma say_all_say_all: "say_all qs (say p (say_all ps w)) = say_all (ps @ p # qs) w"
  by (simp add: say_all_def say_def)

lemma save_session_log_of_returns: "fst (save_session_log_of v e action user_input w) = None"
  by (cases v) (simp_all add: save_session_log_returns save_session_log_new_returns)

lemma save_session_log_of_prints:
  "filter is_response_block (printed (snd (save_session_log_of v e action user_input w)))
   = filter is_response_block (printed w)"
  by (cases v) (simp_all add: save_session_log_prints save_session_log_new_prints)

lemma prompt_loop_gui_old_returns:
  "prompt_loop_gui Old_flow gui b n stdin = (r, n', rest, ps) \<Longrightarrow> \<exists>u. r = Returned u"
proof (induction Old_flow gui b n stdin arbitrary: r n' rest ps rule: prompt_loop_gui.induct)
  case (1 gui sys_bound n)
  then show ?case by auto
next
  case (2 gui sys_bound n rest0)
  then show ?case by auto
next
  case (3 gui sys_bound n l rest0)
  show ?case
  proof (cases "py_strip l = []")
    case True
    obtain r1 n1 rest1 ps1
      where r: "prompt_loop_gui Old_flow gui sys_bound n rest0 = (r1, n1, rest1, ps1)"
      by (cases "prompt_loop_gui Old_flow gui sys_bound n rest0") auto
    with "3.prems" True have "r = r1"
      by simp
    with "3.hyps"(1) [OF refl True r] show ?thesis by simp
  next
    case False
    note nonblank = this
    show ?thesis
    proof (cases "py_lower (py_strip l) \<in> set gui_keywords")
      case False
      with "3.prems" nonblank show ?thesis by (auto simp: Let_def)
    next
      case True
      obtain g n1 rest1 ps1 where g: "gui_loop Old_flow gui n [] rest0 = (g, n1, rest1, ps1)"
        by (cases "gui_loop Old_flow gui n [] rest0") auto
      show ?thesis
      proof (cases g)
        case (Accepted content)
        with "3.prems" nonblank True g show ?thesis
          by (auto simp: Let_def)
      next
        case Interrupted
        with "3.prems" nonblank True g show ?thesis
          by (auto simp: Let_def)
      next
        case Broke
        obtain r2 n2 rest2 ps2
          where r: "prompt_loop_gui Old_flow gui True n1 rest1 = (r2, n2, rest2, ps2)"
          by (cases "prompt_loop_gui Old_flow gui True n1 rest1") auto
        with "3.prems" nonblank True g Broke have eq: "r = r2"
          by (simp add: Let_def)
        show ?thesis
          using "3.hyps"(2) [of "py_strip l" Broke "(n1, rest1, ps1)" n1 "(rest1, ps1)" rest1 ps1
              r2 n2 rest2 ps2] nonblank True g Broke r eq
          by simp
      qed
    qed
  qed
qed

lemma prompt_loop_suffix: "prompt_loop stdin = (u, rest, ps) \<Longrightarrow> suffix rest stdin"
proof (induction stdin arbitrary: u rest ps)
  case Nil
  then show ?case by simp
next
  case (Cons ev stdin)
  show ?case
  proof (cases ev)
    case Interrupt
    with Cons.prems show ?thesis by (auto simp: suffix_Cons)
  next
    case (Line l)
    show ?thesis
    proof (cases "py_strip l = []")
      case True
      obtain u' rest' ps' where r: "prompt_loop stdin = (u', rest', ps')"
        by (cases "prompt_loop stdin") auto
      with Cons.prems Line True have "rest' = rest"
        by simp
      with Cons.IH [OF r] show ?thesis by (simp add: suffix_Cons)
    next
      case False
      with Cons.prems Line show ?thesis by (auto simp: Let_def suffix_Cons)
    qed
  qed
qed

lemma gui_loop_suffix:
  "gui_loop v gui n c stdin = (r, n', rest, ps) \<Longrightarrow> suffix rest stdin"
proof (induction v gui n c stdin arbitrary: r n' rest ps rule: gui_loop.induct)
  case (1 v gui n current_content stdin)
  from "1.prems" show ?case
    apply (subst (asm) gui_loop.simps)
    apply (auto simp: suffix_Cons split: proc_result.splits gui_result.splits list.splits
        stdin_event.splits if_splits prod.splits dest: "1.IH")
    done
qed

lemma prompt_loop_gui_suffix:
  "prompt_loop_gui v gui b n stdin = (r, n', rest, ps) \<Longrightarrow> suffix rest stdin"
proof (induction v gui b n stdin arbitrary: r n' rest ps rule: prompt_loop_gui.induct)
  case (1 v gui sys_bound n)
  then show ?case by auto
next
  case (2 v gui sys_bound n rest0)
  then show ?case by (auto simp: suffix_Cons)
next
  case (3 v gui sys_bound n l rest0)
  show ?case
  proof (cases "py_strip l = []")
    case True
    obtain r1 n1 rest1 ps1 where r: "prompt_loop_gui v gui sys_bound n rest0 = (r1, n1, rest1, ps1)"
      by (cases "prompt_loop_gui v gui sys_bound n rest0") auto
    with "3.prems" True have "rest = rest1"
      by simp
    with "3.IH"(1) [OF refl True r] show ?thesis by (simp add: suffix_Cons)
  next
    case False
    note nonblank = this
    show ?thesis
    proof (cases "py_lower (py_strip l) \<in> set gui_keywords")
      case False
      with "3.prems" nonblank show ?thesis by (auto simp: Let_def suffix_Cons)
    next
      case True
      obtain g n1 rest1 ps1 where g: "gui_loop v gui n [] rest0 = (g, n1, rest1, ps1)"
        by (cases "gui_loop v gui n [] rest0") auto
      from gui_loop_suffix [OF g] have s1: "suffix rest1 rest0" .
      show ?thesis
      proof (cases g)
        case (Accepted content)
        with "3.prems" nonblank True g s1 show ?thesis
          by (auto simp: Let_def suffix_Cons)
      next
        case Interrupted
        with "3.prems" nonblank True g s1 show ?thesis
          by (auto simp: Let_def suffix_Cons)
      next
        case Broke
        obtain r2 n2 rest2 ps2
          where r: "prompt_loop_gui v gui True n1 rest1 = (r2, n2, rest2, ps2)"
          by (cases "prompt_loop_gui v gui True n1 rest1") auto
        with "3.prems" nonblank True g Broke have eq: "rest = rest2"
          by (simp add: Let_def)
        have "suffix rest2 rest1"
          using "3.IH"(2) [of "py_strip l" Broke "(n1, rest1, ps1)" n1 "(rest1, ps1)" rest1 ps1
              r2 n2 rest2 ps2] nonblank True g Broke r
          by simp
        with s1 eq show ?thesis
          by (auto simp: suffix_Cons intro: suffix_order.trans)
      qed
    qed
  qed
qed

lemma get_user_input_facts:
  assumes "get_user_input stdin = (u, rest, ps)"
  shows "suffix rest stdin" and "filter is_response_block ps = []"
proof -
  from assms have p: "prompt_loop stdin = (u, rest, tl ps)" and o: "ps = Options # tl ps"
    by (auto simp: get_user_input_def split: prod.splits)
  from prompt_loop_suffix [OF p] show "suffix rest stdin" .
  from prompt_loop_prints [OF p] have "filter is_response_block (Options # tl ps) = []"
    by simp
  with o show "filter is_response_block ps = []"
    by simp
qed

lemma get_user_input_gui_facts:
  assumes "get_user_input_gui v gui n stdin = (r, n', rest, ps)"
  shows "suffix rest stdin" and "filter is_response_block ps = []"
    and "v = Old_flow \<Longrightarrow> \<exists>u. r = Returned u"
proof -
  from assms have p: "prompt_loop_gui v gui False n stdin = (r, n', rest, tl ps)"
    and o: "ps = Options # tl ps"
    by (auto simp: get_user_input_gui_def split: prod.splits)
  from prompt_loop_gui_suffix [OF p] show "suffix rest stdin" .
  from prompt_loop_gui_prints [OF p] have "filter is_response_block (Options # tl ps) = []"
    by simp
  with o show "filter is_response_block ps = []"
    by simp
  show "\<exists>u. r = Returned u" if "v = Old_flow"
    using p that prompt_loop_gui_old_returns by blast
qed

lemma main_loop_law:
  "main_loop e stdin w
   = (case get_user_input stdin of
        (u, rest, ps) \<Rightarrow>
          if fst (process_input u) = Help
          then main_loop e rest (say HelpText (say_all ps w))
          else (0, say (ResponseBlock (generate_response (fst (process_input u)) u))
                     (snd (save_session_log e (fst (process_input u)) u (say_all ps w)))))"
proof -
  obtain u rest ps where g: "get_user_input stdin = (u, rest, ps)"
    by (cases "get_user_input stdin") auto
  obtain a where pi: "process_input u = (a, u)"
    using process_input_keeps [of u] by (cases "process_input u") auto
  obtain w' where sv: "save_session_log e a u (say_all ps w) = (None, w')"
    using save_session_log_returns [of e a u "say_all ps w"]
    by (cases "save_session_log e a u (say_all ps w)") auto
  show ?thesis
    by (subst main_loop.simps) (simp add: g pi sv)
qed

lemma main_loop_gui_law:
  "main_loop_gui v e n stdin w
   = (case get_user_input_gui v (run_gui e) n stdin of
        (SysExit code, n', rest, ps) \<Rightarrow> (code, say_all ps w)
      | (UnboundLocalError, n', rest, ps) \<Rightarrow> (1, say FlowError (say_all ps w))
      | (Returned u, n', rest, ps) \<Rightarrow>
          if fst (process_input_of v u) = Help
          then main_loop_gui v e n' rest (say HelpText (say_all ps w))
          else (0, say (ResponseBlock (generate_response_of v e (fst (process_input_of v u)) u))
                     (snd (save_session_log_of v e (fst (process_input_of v u)) u
                             (say_all ps w)))))"
proof -
  obtain r n' rest ps where g: "get_user_input_gui v (run_gui e) n stdin = (r, n', rest, ps)"
    by (cases "get_user_input_gui v (run_gui e) n stdin") auto
  show ?thesis
  proof (cases r)
    case (Returned u)
    obtain a where pi: "process_input_of v u = (a, u)"
      using process_input_of_keeps [of v u] by (cases "process_input_of v u") auto
    obtain w' where sv: "save_session_log_of v e a u (say_all ps w) = (None, w')"
      using save_session_log_of_returns [of v e a u "say_all ps w"]
      by (cases "save_session_log_of v e a u (say_all ps w)") auto
    show ?thesis
      by (subst main_loop_gui.simps) (simp add: g Returned pi sv)
  next
    case (SysExit code)
    show ?thesis
      by (subst main_loop_gui.simps) (simp add: g SysExit)
  next
    case UnboundLocalError
    show ?thesis
      by (subst main_loop_gui.simps) (simp add: g UnboundLocalError)
  qed
qed

lemma main_loop_run:
  "\<exists>stdin' u rest ps0 pre.
     suffix stdin' stdin \<and> get_user_input stdin' = (u, rest, ps0)
     \<and> fst (process_input u) \<noteq> Help \<and> filter is_response_block (pre @ ps0) = []
     \<and> main_loop e stdin w
        = (0, say (ResponseBlock (generate_response (fst (process_input u)) u))
                (snd (save_session_log e (fst (process_input u)) u (say_all (pre @ ps0) w))))"
proof (induction e stdin w rule: main_loop.induct)
  case (1 e stdin w)
  obtain u rest ps where g: "get_user_input stdin = (u, rest, ps)"
    by (cases "get_user_input stdin") auto
  obtain a where pi: "process_input u = (a, u)"
    using process_input_keeps [of u] by (cases "process_input u") auto
  note facts = get_user_input_facts [OF g]
  show ?case
  proof (cases "a = Help")
    case True
    from "1.IH" [OF g [symmetric] refl pi [symmetric] True]
    obtain stdin' u' rest' ps0 pre
      where s: "suffix stdin' rest" "get_user_input stdin' = (u', rest', ps0)"
        "fst (process_input u') \<noteq> Help" "filter is_response_block (pre @ ps0) = []"
        "main_loop e rest (say HelpText (say_all ps w))
          = (0, say (ResponseBlock (generate_response (fst (process_input u')) u'))
                  (snd (save_session_log e (fst (process_input u')) u'
                          (say_all (pre @ ps0) (say HelpText (say_all ps w))))))"
      by blast
    have step: "main_loop e stdin w = main_loop e rest (say HelpText (say_all ps w))"
      by (subst main_loop_law) (simp add: g pi True)
    have "suffix stdin' stdin"
      using s(1) facts(1) by (rule suffix_order.trans)
    moreover have "filter is_response_block ((ps @ HelpText # pre) @ ps0) = []"
      using s(4) facts(2) by simp
    moreover have "main_loop e stdin w
        = (0, say (ResponseBlock (generate_response (fst (process_input u')) u'))
                (snd (save_session_log e (fst (process_input u')) u'
                        (say_all ((ps @ HelpText # pre) @ ps0) w))))"
      using step s(5) by (simp add: say_all_say_all)
    ultimately show ?thesis
      using s(2,3) by blast
  next
    case False
    have "main_loop e stdin w
        = (0, say (ResponseBlock (generate_response (fst (process_input u)) u))
                (snd (save_session_log e (fst (process_input u)) u (say_all ([] @ ps) w))))"
      by (subst main_loop_law) (simp add: g pi False)
    moreover have "filter is_response_block ([] @ ps) = []"
      using facts(2) by simp
    moreover have "fst (process_input u) \<noteq> Help"
      using pi False by simp
    ultimately show ?thesis
      using g suffix_order.refl by blast
  qed
qed

lemma main_loop_gui_run:
  "\<exists>stdin' n0 r n1 rest ps0 pre.
     suffix stdin' stdin \<and> get_user_input_gui v (run_gui e) n0 stdin' = (r, n1, rest, ps0)
     \<and> filter is_response_block (pre @ ps0) = []
     \<and> (case r of Returned u \<Rightarrow> fst (process_input_of v u) \<noteq> Help | _ \<Rightarrow> v = New_flow)
     \<and> main_loop_gui v e n stdin w
        = (case r of
             Returned u \<Rightarrow>
               (0, say (ResponseBlock (generate_response_of v e (fst (process_input_of v u)) u))
                     (snd (save_session_log_of v e (fst (process_input_of v u)) u
                             (say_all (pre @ ps0) w))))
           | SysExit code \<Rightarrow> (code, say_all (pre @ ps0) w)
           | UnboundLocalError \<Rightarrow> (1, say FlowError (say_all (pre @ ps0) w)))"
proof (induction v e n stdin w rule: main_loop_gui.induct)
  case (1 v e n stdin w)
  obtain r n' rest ps where g: "get_user_input_gui v (run_gui e) n stdin = (r, n', rest, ps)"
    by (cases "get_user_input_gui v (run_gui e) n stdin") auto
  note facts = get_user_input_gui_facts [OF g]
  have nr: "filter is_response_block ([] @ ps) = []"
    using facts(2) by simp
  show ?case
  proof (cases "\<exists>u. r = Returned u \<and> fst (process_input_of v u) = Help")
    case True
    then obtain u where u: "r = Returned u" and h: "fst (process_input_of v u) = Help"
      by blast
    obtain a where pi: "process_input_of v u = (a, u)"
      using process_input_of_keeps [of v u] by (cases "process_input_of v u") auto
    with h have a: "a = Help" by simp
    from "1.IH" [OF g [symmetric] u refl refl pi [symmetric] a]
    obtain stdin' n0 r' n1 rest' ps0 pre
      where s: "suffix stdin' rest"
        "get_user_input_gui v (run_gui e) n0 stdin' = (r', n1, rest', ps0)"
        "filter is_response_block (pre @ ps0) = []"
        "case r' of Returned u \<Rightarrow> fst (process_input_of v u) \<noteq> Help | _ \<Rightarrow> v = New_flow"
        "main_loop_gui v e n' rest (say HelpText (say_all ps w))
          = (case r' of
               Returned u \<Rightarrow>
                 (0, say (ResponseBlock
                            (generate_response_of v e (fst (process_input_of v u)) u))
                       (snd (save_session_log_of v e (fst (process_input_of v u)) u
                               (say_all (pre @ ps0) (say HelpText (say_all ps w))))))
             | SysExit code \<Rightarrow> (code, say_all (pre @ ps0) (say HelpText (say_all ps w)))
             | UnboundLocalError \<Rightarrow>
                 (1, say FlowError (say_all (pre @ ps0) (say HelpText (say_all ps w)))))"
      by blast
    have step: "main_loop_gui v e n stdin w
        = main_loop_gui v e n' rest (say HelpText (say_all ps w))"
      by (subst main_loop_gui_law) (simp add: g u h)
    have "suffix stdin' stdin"
      using s(1) facts(1) by (rule suffix_order.trans)
    moreover have "filter is_response_block ((ps @ HelpText # pre) @ ps0) = []"
      using s(3) facts(2) by simp
    moreover have "main_loop_gui v e n stdin w
        = (case r' of
             Returned u \<Rightarrow>
               (0, say (ResponseBlock (generate_response_of v e (fst (process_input_of v u)) u))
                     (snd (save_session_log_of v e (fst (process_input_of v u)) u
                             (say_all ((ps @ HelpText # pre) @ ps0) w))))
           | SysExit code \<Rightarrow> (code, say_all ((ps @ HelpText # pre) @ ps0) w)
           | UnboundLocalError \<Rightarrow> (1, say FlowError (say_all ((ps @ HelpText # pre) @ ps0) w)))"
    proof -
      have "say_all (pre @ ps0) (say HelpText (say_all ps w))
          = say_all ((ps @ HelpText # pre) @ ps0) w"
        by (simp add: say_all_say_all)
      with step s(5) show ?thesis
        by (simp only:)
    qed
    ultimately show ?thesis
      using s(2,4) by blast
  next
    case False
    have kind: "case r of Returned u \<Rightarrow> fst (process_input_of v u) \<noteq> Help | _ \<Rightarrow> v = New_flow"
      using False facts(3) by (cases r; cases v) auto
    have "main_loop_gui v e n stdin w
        = (case r of
             Returned u \<Rightarrow>
               (0, say (ResponseBlock (generate_response_of v e (fst (process_input_of v u)) u))
                     (snd (save_session_log_of v e (fst (process_input_of v u)) u
                             (say_all ([] @ ps) w))))
           | SysExit code \<Rightarrow> (code, say_all ([] @ ps) w)
           | UnboundLocalError \<Rightarrow> (1, say FlowError (say_all ([] @ ps) w)))"
      using False by (subst main_loop_gui_law) (cases r; simp add: g)
    with g nr kind suffix_order.refl show ?thesis
      by blast
  qed
qed

text \<open>
  C7. \<^verbatim>\<open>main\<close> of \<^verbatim>\<open>src/flow.py\<close> prints the banner and enters the loop, and each round of
  the loop does this with the instruction \<open>u\<close> that \<^verbatim>\<open>get_user_input\<close> returns: when \<open>u\<close> is
  classified as help it prints the help text, logs nothing, prints no response block, and
  goes round again on the rest of the input; otherwise it calls \<^verbatim>\<open>save_session_log\<close> once
  for \<open>u\<close> and its action, prints the response block for them, and the run ends with status
  0. So every run ends in a round on a rest \<open>stdin'\<close> of the input whose instruction is not a
  request for help; all it printed before (\<open>pre\<close>, \<open>ps0\<close>) holds no response block and it
  wrote nothing before; exactly one response block is printed, as the last message.
  \<^verbatim>\<open>main\<close> of \<^verbatim>\<open>src/old_flow/flow.py\<close> and of \<^verbatim>\<open>src/new_flow/flow.py\<close> does the same, but
  that in \<^verbatim>\<open>new_flow\<close> a round also ends the run when \<^verbatim>\<open>get_user_input\<close> does not return
  (interrupt or end of input): then nothing is logged and no response block is printed.
\<close>

theorem one_response_block_per_run:
  "main e stdin w = main_loop e stdin (say Banner w)
   \<and> main_loop e stdin w
      = (case get_user_input stdin of
           (u, rest, ps) \<Rightarrow>
             if fst (process_input u) = Help
             then main_loop e rest (say HelpText (say_all ps w))
             else (0, say (ResponseBlock (generate_response (fst (process_input u)) u))
                        (snd (save_session_log e (fst (process_input u)) u (say_all ps w)))))
   \<and> (\<exists>stdin' u rest ps0 pre.
         suffix stdin' stdin \<and> get_user_input stdin' = (u, rest, ps0)
         \<and> fst (process_input u) \<noteq> Help \<and> filter is_response_block (pre @ ps0) = []
         \<and> main e stdin w
            = (0, say (ResponseBlock (generate_response (fst (process_input u)) u))
                    (snd (save_session_log e (fst (process_input u)) u
                            (say_all (Banner # pre @ ps0) w))))
         \<and> filter is_response_block (printed (snd (main e stdin w)))
            = filter is_response_block (printed w)
                @ [ResponseBlock (generate_response (fst (process_input u)) u)])
   \<and> main_gui v e stdin w = main_loop_gui v e 0 stdin (say Banner w)
   \<and> main_loop_gui v e n stdin w
      = (case get_user_input_gui v (run_gui e) n stdin of
           (SysExit code, n', rest, ps) \<Rightarrow> (code, say_all ps w)
         | (UnboundLocalError, n', rest, ps) \<Rightarrow> (1, say FlowError (say_all ps w))
         | (Returned u, n', rest, ps) \<Rightarrow>
             if fst (process_input_of v u) = Help
             then main_loop_gui v e n' rest (say HelpText (say_all ps w))
             else (0, say (ResponseBlock
                             (generate_response_of v e (fst (process_input_of v u)) u))
                        (snd (save_session_log_of v e (fst (process_input_of v u)) u
                                (say_all ps w)))))
   \<and> (\<exists>stdin' n0 r n1 rest ps0 pre.
         suffix stdin' stdin \<and> get_user_input_gui v (run_gui e) n0 stdin' = (r, n1, rest, ps0)
         \<and> filter is_response_block (pre @ ps0) = []
         \<and> (case r of Returned u \<Rightarrow> fst (process_input_of v u) \<noteq> Help | _ \<Rightarrow> v = New_flow)
         \<and> main_gui v e stdin w
            = (case r of
                 Returned u \<Rightarrow>
                   (0, say (ResponseBlock
                              (generate_response_of v e (fst (process_input_of v u)) u))
                         (snd (save_session_log_of v e (fst (process_input_of v u)) u
                                 (say_all (Banner # pre @ ps0) w))))
               | SysExit code \<Rightarrow> (code, say_all (Banner # pre @ ps0) w)
               | UnboundLocalError \<Rightarrow> (1, say FlowError (say_all (Banner # pre @ ps0) w)))
         \<and> filter is_response_block (printed (snd (main_gui v e stdin w)))
            = filter is_response_block (printed w)
                @ (case r of
                     Returned u \<Rightarrow>
                       [ResponseBlock (generate_response_of v e (fst (process_input_of v u)) u)]
                   | _ \<Rightarrow> []))"
proof (intro conjI)
  show "main e stdin w = main_loop e stdin (say Banner w)"
    by (simp add: main_def)
  show "main_gui v e stdin w = main_loop_gui v e 0 stdin (say Banner w)"
    by (simp add: main_gui_def)
  show "main_loop e stdin w
      = (case get_user_input stdin of
           (u, rest, ps) \<Rightarrow>
             if fst (process_input u) = Help
             then main_loop e rest (say HelpText (say_all ps w))
             else (0, say (ResponseBlock (generate_response (fst (process_input u)) u))
                        (snd (save_session_log e (fst (process_input u)) u (say_all ps w)))))"
    by (rule main_loop_law)
  show "main_loop_gui v e n stdin w
      = (case get_user_input_gui v (run_gui e) n stdin of
           (SysExit code, n', rest, ps) \<Rightarrow> (code, say_all ps w)
         | (UnboundLocalError, n', rest, ps) \<Rightarrow> (1, say FlowError (say_all ps w))
         | (Returned u, n', rest, ps) \<Rightarrow>
             if fst (process_input_of v u) = Help
             then main_loop_gui v e n' rest (say HelpText (say_all ps w))
             else (0, say (ResponseBlock
                             (generate_response_of v e (fst (process_input_of v u)) u))
                        (snd (save_session_log_of v e (fst (process_input_of v u)) u
                                (say_all ps w)))))"
    by (rule main_loop_gui_law)
  have banner: "say_all ps (say Banner w) = say_all (Banner # ps) w" for ps
    by (simp add: say_all_def say_def)
  show "\<exists>stdin' u rest ps0 pre.
         suffix stdin' stdin \<and> get_user_input stdin' = (u, rest, ps0)
         \<and> fst (process_input u) \<noteq> Help \<and> filter is_response_block (pre @ ps0) = []
         \<and> main e stdin w
            = (0, say (ResponseBlock (generate_response (fst (process_input u)) u))
                    (snd (save_session_log e (fst (process_input u)) u
                            (say_all (Banner # pre @ ps0) w))))
         \<and> filter is_response_block (printed (snd (main e stdin w)))
            = filter is_response_block (printed w)
                @ [ResponseBlock (generate_response (fst (process_input u)) u)]"
  proof -
    from main_loop_run [of stdin e "say Banner w"]
    obtain stdin' u rest ps0 pre
      where s: "suffix stdin' stdin" "get_user_input stdin' = (u, rest, ps0)"
        "fst (process_input u) \<noteq> Help" "filter is_response_block (pre @ ps0) = []"
        "main_loop e stdin (say Banner w)
          = (0, say (ResponseBlock (generate_response (fst (process_input u)) u))
                  (snd (save_session_log e (fst (process_input u)) u
                          (say_all (pre @ ps0) (say Banner w)))))"
      by blast
    have m: "main e stdin w
        = (0, say (ResponseBlock (generate_response (fst (process_input u)) u))
                (snd (save_session_log e (fst (process_input u)) u
                        (say_all (Banner # pre @ ps0) w))))"
      using s(5) by (simp only: main_def banner)
    have "filter is_response_block (printed (say_all (Banner # pre @ ps0) w))
        = filter is_response_block (printed w)"
      using s(4) by (simp add: say_all_def)
    then have "filter is_response_block (printed (snd (main e stdin w)))
        = filter is_response_block (printed w)
            @ [ResponseBlock (generate_response (fst (process_input u)) u)]"
      by (simp add: m say_def save_session_log_prints)
    with s(1-4) m show ?thesis
      by blast
  qed
  show "\<exists>stdin' n0 r n1 rest ps0 pre.
         suffix stdin' stdin \<and> get_user_input_gui v (run_gui e) n0 stdin' = (r, n1, rest, ps0)
         \<and> filter is_response_block (pre @ ps0) = []
         \<and> (case r of Returned u \<Rightarrow> fst (process_input_of v u) \<noteq> Help | _ \<Rightarrow> v = New_flow)
         \<and> main_gui v e stdin w
            = (case r of
                 Returned u \<Rightarrow>
                   (0, say (ResponseBlock
                              (generate_response_of v e (fst (process_input_of v u)) u))
                         (snd (save_session_log_of v e (fst (process_input_of v u)) u
                                 (say_all (Banner # pre @ ps0) w))))
               | SysExit code \<Rightarrow> (code, say_all (Banner # pre @ ps0) w)
               | UnboundLocalError \<Rightarrow> (1, say FlowError (say_all (Banner # pre @ ps0) w)))
         \<and> filter is_response_block (printed (snd (main_gui v e stdin w)))
            = filter is_response_block (printed w)
                @ (case r of
                     Returned u \<Rightarrow>
                       [ResponseBlock (generate_response_of v e (fst (process_input_of v u)) u)]
                   | _ \<Rightarrow> [])"
  proof -
    from main_loop_gui_run [of stdin v e 0 "say Banner w"]
    obtain stdin' n0 r n1 rest ps0 pre
      where s: "suffix stdin' stdin"
        "get_user_input_gui v (run_gui e) n0 stdin' = (r, n1, rest, ps0)"
        "filter is_response_block (pre @ ps0) = []"
        "case r of Returned u \<Rightarrow> fst (process_input_of v u) \<noteq> Help | _ \<Rightarrow> v = New_flow"
        "main_loop_gui v e 0 stdin (say Banner w)
          = (case r of
               Returned u \<Rightarrow>
                 (0, say (ResponseBlock
                            (generate_response_of v e (fst (process_input_of v u)) u))
                       (snd (save_session_log_of v e (fst (process_input_of v u)) u
                               (say_all (pre @ ps0) (say Banner w)))))
             | SysExit code \<Rightarrow> (code, say_all (pre @ ps0) (say Banner w))
             | UnboundLocalError \<Rightarrow> (1, say FlowError (say_all (pre @ ps0) (say Banner w))))"
      by blast
    have m: "main_gui v e stdin w
        = (case r of
             Returned u \<Rightarrow>
               (0, say (ResponseBlock
                          (generate_response_of v e (fst (process_input_of v u)) u))
                     (snd (save_session_log_of v e (fst (process_input_of v u)) u
                             (say_all (Banner # pre @ ps0) w))))
           | SysExit code \<Rightarrow> (code, say_all (Banner # pre @ ps0) w)
           | UnboundLocalError \<Rightarrow> (1, say FlowError (say_all (Banner # pre @ ps0) w)))"
      using s(5) by (simp only: main_gui_def banner)
    have quiet: "filter is_response_block (printed (say_all (Banner # pre @ ps0) w))
        = filter is_response_block (printed w)"
      using s(3) by (simp add: say_all_def)
    have "filter is_response_block (printed (snd (main_gui v e stdin w)))
        = filter is_response_block (printed w)
            @ (case r of
                 Returned u \<Rightarrow>
                   [ResponseBlock (generate_response_of v e (fst (process_input_of v u)) u)]
               | _ \<Rightarrow> [])"
      using quiet by (cases r) (simp_all add: m say_def save_session_log_of_prints)
    with s(1-4) m show ?thesis
      by blast
  qed
qed

lemma run_examples:
  "get_user_input [Line ''help'', Line ''add a dark mode toggle'']
     = (''help'', [Line ''add a dark mode toggle''], [Options, Prompt])"
  "get_user_input [Line ''add a dark mode toggle'']
     = (''add a dark mode toggle'', [], [Options, Prompt])"
  "fst (process_input ''help'') = Help"
  "fst (process_input ''add a dark mode toggle'') = Continue"
  "get_user_input_gui New_flow (run_gui plain_env) 0 []
     = (UnboundLocalError, 0, [], [Options, Prompt, StreamEnded])"
  by (code_simp, code_simp, code_simp, code_simp, simp add: get_user_input_gui_def)

text \<open>
  A request for help and then an instruction in \<^verbatim>\<open>src/flow.py\<close>; the end of input at the
  first prompt in \<^verbatim>\<open>src/new_flow/flow.py\<close>.
\<close>

theorem one_response_block_per_run_witness:
  "main plain_env [Line ''help'', Line ''add a dark mode toggle''] (world_with None)
   = (0, say (ResponseBlock (generate_response Continue ''add a dark mode toggle''))
           (snd (save_session_log plain_env Continue ''add a dark mode toggle''
                   (say_all [Banner, Options, Prompt, HelpText, Options, Prompt]
                      (world_with None)))))
   \<and> main_gui New_flow plain_env [] (world_with None)
     = (1, say_all [Banner, Options, Prompt, StreamEnded, FlowError] (world_with None))"
proof -
  note run = one_response_block_per_run
  have "main plain_env [Line ''help'', Line ''add a dark mode toggle''] (world_with None)
      = main_loop plain_env [Line ''help'', Line ''add a dark mode toggle'']
          (say Banner (world_with None))"
    using run [where e = plain_env and w = "world_with None"
        and stdin = "[Line ''help'', Line ''add a dark mode toggle'']"]
    by blast
  also have "\<dots> = main_loop plain_env [Line ''add a dark mode toggle'']
      (say HelpText (say_all [Options, Prompt] (say Banner (world_with None))))"
    using run [where e = plain_env and w = "say Banner (world_with None)"
        and stdin = "[Line ''help'', Line ''add a dark mode toggle'']"]
    by (simp add: run_examples)
  also have "\<dots> = (0, say (ResponseBlock (generate_response Continue ''add a dark mode toggle''))
           (snd (save_session_log plain_env Continue ''add a dark mode toggle''
                   (say_all [Options, Prompt]
                      (say HelpText (say_all [Options, Prompt] (say Banner (world_with None))))))))"
    using run [where e = plain_env
        and w = "say HelpText (say_all [Options, Prompt] (say Banner (world_with None)))"
        and stdin = "[Line ''add a dark mode toggle'']"]
    by (simp add: run_examples)
  finally have a: "main plain_env [Line ''help'', Line ''add a dark mode toggle'']
        (world_with None)
      = (0, say (ResponseBlock (generate_response Continue ''add a dark mode toggle''))
           (snd (save_session_log plain_env Continue ''add a dark mode toggle''
                   (say_all [Banner, Options, Prompt, HelpText, Options, Prompt]
                      (world_with None)))))"
    by (simp add: say_def say_all_def)
  have "main_gui New_flow plain_env [] (world_with None)
      = main_loop_gui New_flow plain_env 0 [] (say Banner (world_with None))"
    using run [where e = plain_env and w = "world_with None" and stdin = "[]" and v = New_flow]
    by blast
  also have "\<dots> = (1, say FlowError (say_all [Options, Prompt, StreamEnded]
      (say Banner (world_with None))))"
    using run [where e = plain_env and w = "say Banner (world_with None)" and stdin = "[]"
        and v = New_flow and n = 0]
    by (simp add: run_examples)
  finally have "main_gui New_flow plain_env [] (world_with None)
      = (1, say_all [Banner, Options, Prompt, StreamEnded, FlowError] (world_with None))"
    by (simp add: say_def say_all_def)
  with a show ?thesis
    by simp
qed

end
